theory Spec2Isabelle
  imports Complex_Main "HOL-Library.Sublist"
begin

section \<open>JavaScript values\<close>

text \<open>
  The retrieval core of \<^verbatim>\<open>src/advanced-agentic-rag.js\<close>: the classes
  \<^verbatim>\<open>VectorStore\<close> (vectorize, cosineSimilarity, vectorSearch) and
  \<^verbatim>\<open>AdvancedKnowledgeBase\<close> (keywordSearch, hybridRetrieval).

  Numbers. A JavaScript number is a double. In \<open>jsnum\<close> it is a real number or
  \<open>NaN\<close>: rounding, overflow and the sign of zero are abstracted away, \<open>NaN\<close> is kept
  because the program produces it. \<open>NaN\<close> absorbs every operation. The quotient of a
  number other than zero by zero (an infinity in JavaScript) has no representative; in
  this arithmetic the two divisions of the program never form it
  (\<open>vectorize_divisor_positive\<close>, \<open>cosineSimilarity_zero_divisor\<close> below).

  Where a statement depends on the rounding, the arithmetic is binary64 itself
  (\<open>double\<close>, \<open>round64\<close> and \<open>cosineSimilarity64\<close> in section VectorStore).
\<close>

datatype jsnum = Num real | NaN

fun jsadd :: "jsnum \<Rightarrow> jsnum \<Rightarrow> jsnum" where
  "jsadd (Num a) (Num b) = Num (a + b)"
| "jsadd _ _ = NaN"

fun jssub :: "jsnum \<Rightarrow> jsnum \<Rightarrow> jsnum" where
  "jssub (Num a) (Num b) = Num (a - b)"
| "jssub _ _ = NaN"

fun jsmul :: "jsnum \<Rightarrow> jsnum \<Rightarrow> jsnum" where
  "jsmul (Num a) (Num b) = Num (a * b)"
| "jsmul _ _ = NaN"

fun jsdiv :: "jsnum \<Rightarrow> jsnum \<Rightarrow> jsnum" where
  "jsdiv (Num a) (Num b) = (if b = 0 then NaN else Num (a / b))"
| "jsdiv _ _ = NaN"

fun jssqrt :: "jsnum \<Rightarrow> jsnum" where
  "jssqrt (Num a) = (if a < 0 then NaN else Num (sqrt a))"
| "jssqrt NaN = NaN"

text \<open>\<open>x > 0\<close> and \<open>x >= y\<close> as JavaScript evaluates them: false when \<open>NaN\<close> is involved.\<close>

fun positive :: "jsnum \<Rightarrow> bool" where
  "positive (Num a) = (0 < a)"
| "positive NaN = False"

fun jsge :: "jsnum \<Rightarrow> jsnum \<Rightarrow> bool" where
  "jsge (Num a) (Num b) = (b \<le> a)"
| "jsge _ _ = False"

fun isNumber :: "jsnum \<Rightarrow> bool" where
  "isNumber (Num a) = True"
| "isNumber NaN = False"

section \<open>Strings\<close>

text \<open>
  A string is a list of code units; the development covers the code units below 256
  (Latin-1). \<^verbatim>\<open>toLowerCase\<close> maps A-Z and the upper-case letters of
  U+00C0..U+00DE (all but the multiplication sign U+00D7) to the code unit 32 above, that
  is, it sets bit 5, which is clear in each of them.
\<close>

definition isUpper :: "char \<Rightarrow> bool" where
  "isUpper c = (let n = (of_char c :: nat)
                in (65 \<le> n \<and> n \<le> 90) \<or> (192 \<le> n \<and> n \<le> 222 \<and> n \<noteq> 215))"

fun setBit5 :: "char \<Rightarrow> char" where
  "setBit5 (Char b0 b1 b2 b3 b4 b5 b6 b7) = Char b0 b1 b2 b3 b4 True b6 b7"

definition lowerChar :: "char \<Rightarrow> char" where
  "lowerChar c = (if isUpper c then setBit5 c else c)"

definition toLowerCase :: "string \<Rightarrow> string" where
  "toLowerCase s = map lowerChar s"

text \<open>The class \<^verbatim>\<open>\w\<close> of a regular expression without flags u, i: \<^verbatim>\<open>[A-Za-z0-9_]\<close>.\<close>

definition isWordChar :: "char \<Rightarrow> bool" where
  "isWordChar c = (let n = (of_char c :: nat)
                   in (48 \<le> n \<and> n \<le> 57) \<or> (65 \<le> n \<and> n \<le> 90) \<or> n = 95 \<or> (97 \<le> n \<and> n \<le> 122))"

text \<open>The class \<^verbatim>\<open>\s\<close> below 256: tab, line feed, vertical tab, form feed, carriage
  return, space, no-break space.\<close>

definition isWhiteSpace :: "char \<Rightarrow> bool" where
  "isWhiteSpace c = (let n = (of_char c :: nat) in (9 \<le> n \<and> n \<le> 13) \<or> n = 32 \<or> n = 160)"

text \<open>
  \<^verbatim>\<open>text.match(/\b\w+\b/g) || []\<close>: the maximal runs of word characters, left to
  right. A match starts where a run starts (the only word boundary followed by a word
  character), the greedy \<^verbatim>\<open>\w+\<close> takes the whole run, and the run's end is a boundary.
  \<open>cur\<close> is the run being read.
\<close>

fun matchWords :: "string \<Rightarrow> string \<Rightarrow> string list" where
  "matchWords cur [] = (if cur = [] then [] else [cur])"
| "matchWords cur (c # cs) =
     (if isWordChar c then matchWords (cur @ [c]) cs
      else if cur = [] then matchWords [] cs
      else cur # matchWords [] cs)"

text \<open>
  \<^verbatim>\<open>s.split(/\s+/)\<close>: the pieces between maximal runs of white space; a leading or
  trailing run leaves an empty piece, and the empty string gives one empty piece.
  \<open>inSep\<close> says that the last character read was white space.
\<close>

fun splitWs :: "bool \<Rightarrow> string \<Rightarrow> string \<Rightarrow> string list" where
  "splitWs inSep cur [] = [cur]"
| "splitWs inSep cur (c # cs) =
     (if isWhiteSpace c then (if inSep then splitWs True cur cs else cur # splitWs True [] cs)
      else splitWs False (cur @ [c]) cs)"

definition splitWhitespace :: "string \<Rightarrow> string list" where
  "splitWhitespace s = splitWs False [] s"

text \<open>\<^verbatim>\<open>t.includes(q)\<close>: \<open>q\<close> starts at some position of \<open>t\<close>.\<close>

fun includesStr :: "string \<Rightarrow> string \<Rightarrow> bool" where
  "includesStr [] q = (q = [])"
| "includesStr (c # cs) q = (prefix q (c # cs) \<or> includesStr cs q)"

section \<open>VectorStore\<close>

subsection \<open>vectorize\<close>

text \<open>
  \<^verbatim>\<open>wordCount\<close> is a plain object \<^verbatim>\<open>{}\<close>, so \<^verbatim>\<open>wordCount[word]\<close> also
  reads what the object inherits from \<^verbatim>\<open>Object.prototype\<close>. Of the inherited names only
  \<^verbatim>\<open>constructor\<close> and \<^verbatim>\<open>__proto__\<close> are lower-case words:
  \<^item> \<^verbatim>\<open>wordCount["constructor"]\<close> is the function \<^verbatim>\<open>Object\<close>, which is truthy, so
    \<^verbatim>\<open>(wordCount[word] || 0) + 1\<close> is a string (the function's text followed by 1), and
    each later occurrence appends another 1 to it;
  \<^item> \<^verbatim>\<open>wordCount["__proto__"]\<close> is the prototype object, the sum is again a string, and
    assigning a string to \<^verbatim>\<open>__proto__\<close> is ignored: no property is created.
  A property of \<^verbatim>\<open>wordCount\<close> is thus a count or such a string (\<open>Text\<close>); the
  object is the list of its own properties in creation order. (JavaScript enumerates the
  keys that are array indices first; the order of a vector's entries has no bearing on
  any result here, which reads vectors by key and sums over the reals.)
\<close>

datatype tally = Count nat | Text

type_synonym vector = "(string \<times> jsnum) list"

fun bump :: "string \<Rightarrow> (string \<times> tally) list \<Rightarrow> (string \<times> tally) list" where
  "bump word [] =
     (if word = ''__proto__'' then []
      else if word = ''constructor'' then [(word, Text)]
      else [(word, Count 1)])"
| "bump word ((k, v) # kvs) =
     (if k = word then (k, (case v of Count n \<Rightarrow> Count (n + 1) | Text \<Rightarrow> Text)) # kvs
      else (k, v) # bump word kvs)"

fun countWords :: "(string \<times> tally) list \<Rightarrow> string list \<Rightarrow> (string \<times> tally) list" where
  "countWords wordCount [] = wordCount"
| "countWords wordCount (word # ws) =
     countWords (if length word > 2 then bump word wordCount else wordCount) ws"

text \<open>\<^verbatim>\<open>count / totalWords\<close>; a string that is not a numeral converts to \<open>NaN\<close>.\<close>

fun weight :: "tally \<Rightarrow> nat \<Rightarrow> jsnum" where
  "weight (Count n) totalWords = jsdiv (Num (real n)) (Num (real totalWords))"
| "weight Text totalWords = NaN"

definition vectorize :: "string \<Rightarrow> vector" where
  "vectorize text =
     (let words = matchWords [] (toLowerCase text);
          totalWords = length words;
          wordCount = countWords [] words
      in map (\<lambda>(word, count). (word, weight count totalWords)) wordCount)"

subsection \<open>cosineSimilarity\<close>

text \<open>
  A vector is an object: the list of its properties. \<open>keys\<close> is
  \<^verbatim>\<open>Object.keys\<close> as a set, \<open>weightOf v w\<close> is \<^verbatim>\<open>v[w]\<close>; a missing property is
  \<^verbatim>\<open>undefined\<close>, which is \<open>NaN\<close> in arithmetic. \<open>cosineSimilarity\<close> computes in
  \<open>jsnum\<close>, without rounding; \<open>cosineSimilarity64\<close> below computes in binary64.
\<close>

definition keys :: "vector \<Rightarrow> string list" where
  "keys v = remdups (map fst v)"

definition weightOf :: "vector \<Rightarrow> string \<Rightarrow> jsnum" where
  "weightOf v w = (case map_of v w of Some x \<Rightarrow> x | None \<Rightarrow> NaN)"

definition sumProducts :: "vector \<Rightarrow> vector \<Rightarrow> string list \<Rightarrow> jsnum" where
  "sumProducts v1 v2 ws = foldl (\<lambda>acc w. jsadd acc (jsmul (weightOf v1 w) (weightOf v2 w))) (Num 0) ws"

definition cosineSimilarity :: "vector \<Rightarrow> vector \<Rightarrow> jsnum" where
  "cosineSimilarity vec1 vec2 =
     (let words1 = keys vec1;
          words2 = keys vec2;
          commonWords = filter (\<lambda>x. x \<in> set words2) words1
      in if commonWords = [] then Num 0
         else
           let dotProduct = sumProducts vec1 vec2 commonWords;
               norm1 = sumProducts vec1 vec1 words1;
               norm2 = sumProducts vec2 vec2 words2
           in jsdiv dotProduct (jsmul (jssqrt norm1) (jssqrt norm2)))"

subsection \<open>cosineSimilarity in binary64\<close>

text \<open>
  The arithmetic of the source is that of binary64. A Number is a finite double, an
  infinity (\<open>Infinity True\<close> is \<^verbatim>\<open>+Infinity\<close>) or NaN. The sign of a zero is not
  represented: \<^verbatim>\<open>+0\<close> and \<^verbatim>\<open>-0\<close> are both \<open>Finite 0\<close>. The two differ only as a
  divisor, and the divisor of cosineSimilarity is never \<^verbatim>\<open>-0\<close>: it is a product of two
  square roots of sums that start from \<^verbatim>\<open>+0\<close>; a zero divisor is therefore taken as
  \<^verbatim>\<open>+0\<close>.

  Each of \<^verbatim>\<open>+\<close>, \<^verbatim>\<open>*\<close>, \<^verbatim>\<open>/\<close> and \<^verbatim>\<open>Math.sqrt\<close> returns the exact result rounded to the
  nearest double, ties to the even significand (\<open>round64\<close>). Around \<open>x\<close> the doubles are
  the multiples of \<open>quantum x\<close>, which is \<open>2^(e - 52)\<close> for \<open>2^e \<le> \<bar>x\<bar> < 2^(e + 1)\<close> and
  \<open>2^-1074\<close> below \<open>2^-1022\<close>, where the doubles are subnormal. A rounded result of
  magnitude \<open>2^1024\<close> or more overflows to an infinity.
\<close>

datatype double = Finite real | Infinity bool | NotANumber

definition roundHalfEven :: "real \<Rightarrow> int" where
  "roundHalfEven y =
     (let f = \<lfloor>y\<rfloor>; d = y - of_int f
      in if d < 1 / 2 then f else if 1 / 2 < d then f + 1 else if even f then f else f + 1)"

definition quantum :: "real \<Rightarrow> real" where
  "quantum x = 2 powr (of_int (max \<lfloor>log 2 \<bar>x\<bar>\<rfloor> (- 1022)) - 52)"

definition nearest64 :: "real \<Rightarrow> real" where
  "nearest64 x = (if x = 0 then 0 else quantum x * of_int (roundHalfEven (x / quantum x)))"

definition round64 :: "real \<Rightarrow> double" where
  "round64 x = (let y = nearest64 x in if 2 powr 1024 \<le> \<bar>y\<bar> then Infinity (0 < y) else Finite y)"

fun add64 :: "double \<Rightarrow> double \<Rightarrow> double" where
  "add64 (Finite a) (Finite b) = round64 (a + b)"
| "add64 (Finite a) (Infinity t) = Infinity t"
| "add64 (Infinity s) (Finite b) = Infinity s"
| "add64 (Infinity s) (Infinity t) = (if s = t then Infinity s else NotANumber)"
| "add64 _ _ = NotANumber"

fun mul64 :: "double \<Rightarrow> double \<Rightarrow> double" where
  "mul64 (Finite a) (Finite b) = round64 (a * b)"
| "mul64 (Finite a) (Infinity t) = (if a = 0 then NotANumber else Infinity (t = (0 < a)))"
| "mul64 (Infinity s) (Finite b) = (if b = 0 then NotANumber else Infinity (s = (0 < b)))"
| "mul64 (Infinity s) (Infinity t) = Infinity (s = t)"
| "mul64 _ _ = NotANumber"

fun div64 :: "double \<Rightarrow> double \<Rightarrow> double" where
  "div64 (Finite a) (Finite b) =
     (if b = 0 then (if a = 0 then NotANumber else Infinity (0 < a)) else round64 (a / b))"
| "div64 (Finite a) (Infinity t) = Finite 0"
| "div64 (Infinity s) (Finite b) = Infinity (s = (0 \<le> b))"
| "div64 _ _ = NotANumber"

fun sqrt64 :: "double \<Rightarrow> double" where
  "sqrt64 (Finite a) = (if a < 0 then NotANumber else round64 (sqrt a))"
| "sqrt64 (Infinity s) = (if s then Infinity True else NotANumber)"
| "sqrt64 NotANumber = NotANumber"

text \<open>
  The weights of a vector are read as they stand (\<open>toDouble\<close>); \<open>cosineSimilarity64\<close> is
  cosineSimilarity with every operation rounded.
\<close>

fun toDouble :: "jsnum \<Rightarrow> double" where
  "toDouble (Num x) = Finite x"
| "toDouble NaN = NotANumber"

definition sumProducts64 :: "vector \<Rightarrow> vector \<Rightarrow> string list \<Rightarrow> double" where
  "sumProducts64 v1 v2 ws =
     foldl (\<lambda>acc w. add64 acc (mul64 (toDouble (weightOf v1 w)) (toDouble (weightOf v2 w))))
       (Finite 0) ws"

definition cosineSimilarity64 :: "vector \<Rightarrow> vector \<Rightarrow> double" where
  "cosineSimilarity64 vec1 vec2 =
     (let words1 = keys vec1;
          words2 = keys vec2;
          commonWords = filter (\<lambda>x. x \<in> set words2) words1
      in if commonWords = [] then Finite 0
         else
           let dotProduct = sumProducts64 vec1 vec2 commonWords;
               norm1 = sumProducts64 vec1 vec1 words1;
               norm2 = sumProducts64 vec2 vec2 words2
           in div64 dotProduct (mul64 (sqrt64 norm1) (sqrt64 norm2)))"

subsection \<open>Array.prototype.sort and slice\<close>

text \<open>
  \<^verbatim>\<open>xs.sort(cmp)\<close> is stable, and a comparator result that is not greater than 0
  (\<open>NaN\<close> counts as 0) leaves two elements in their order. For a comparator that
  orders the elements consistently the sorted array is thereby determined; it is computed
  here by inserting the elements from the right, each one before the first element it
  does not have to follow. When some key is \<open>NaN\<close> among numbers the comparator is not
  consistent and JavaScript leaves the order to the implementation; the results below that
  speak of order assume numbers, and the others use of the sort only that it rearranges
  its argument.

  \<^verbatim>\<open>xs.slice(0, n)\<close> is \<open>take n xs\<close> for a count \<open>n\<close>: every caller passes 5, or twice
  the count it was given.
\<close>

fun insertBy :: "('a \<Rightarrow> 'a \<Rightarrow> jsnum) \<Rightarrow> 'a \<Rightarrow> 'a list \<Rightarrow> 'a list" where
  "insertBy cmp x [] = [x]"
| "insertBy cmp x (y # ys) = (if positive (cmp x y) then y # insertBy cmp x ys else x # y # ys)"

definition sortBy :: "('a \<Rightarrow> 'a \<Rightarrow> jsnum) \<Rightarrow> 'a list \<Rightarrow> 'a list" where
  "sortBy cmp xs = foldr (insertBy cmp) xs []"

subsection \<open>vectorSearch\<close>

text \<open>
  \<^verbatim>\<open>this.embeddings\<close>, the \<^verbatim>\<open>Map\<close> from document ids to vectors, is read with
  \<^verbatim>\<open>has\<close> and \<^verbatim>\<open>get\<close> only: a partial function.
\<close>

record hit =
  docId :: string
  similarity :: jsnum

definition bySimilarity :: "hit \<Rightarrow> hit \<Rightarrow> jsnum" where
  "bySimilarity a b = jssub (similarity b) (similarity a)"

text \<open>The loop over \<^verbatim>\<open>docIds\<close>: an id without a vector is passed over.\<close>

fun similaritiesOf :: "(string \<rightharpoonup> vector) \<Rightarrow> vector \<Rightarrow> string list \<Rightarrow> hit list" where
  "similaritiesOf embeddings queryVector [] = []"
| "similaritiesOf embeddings queryVector (i # ids) =
     (case embeddings i of
        None \<Rightarrow> similaritiesOf embeddings queryVector ids
      | Some docVector \<Rightarrow>
          \<lparr>docId = i, similarity = cosineSimilarity queryVector docVector\<rparr>
            # similaritiesOf embeddings queryVector ids)"

definition vectorSearch :: "(string \<rightharpoonup> vector) \<Rightarrow> string \<Rightarrow> string list \<Rightarrow> nat \<Rightarrow> hit list" where
  "vectorSearch embeddings query docIds topK =
     (let queryVector = vectorize query;
          similarities = similaritiesOf embeddings queryVector docIds
      in take topK (sortBy bySimilarity similarities))"

text \<open>\<^verbatim>\<open>saveEmbedding(docId, text)\<close>, without the write to the file.\<close>

definition saveEmbedding :: "(string \<rightharpoonup> vector) \<Rightarrow> string \<Rightarrow> string \<Rightarrow> (string \<rightharpoonup> vector)" where
  "saveEmbedding embeddings i text = embeddings(i \<mapsto> vectorize text)"

section \<open>Regular expressions\<close>

text \<open>
  keywordSearch evaluates \<^verbatim>\<open>(text.match(new RegExp(word, "g")) || []).length\<close>: the
  word is the source of a regular expression. The constructor throws a
  \<^verbatim>\<open>SyntaxError\<close> on a source that is not a pattern; otherwise the value is the number
  of matches found from left to right, each search starting where the last match ended.

  keywordSearch takes this operation as a parameter \<open>rx\<close> (source, text), so that what
  is proved for every \<open>rx\<close> holds for the engine of the host. \<open>regExpMatchCount\<close> below
  is the engine on the sources made of
  \<^item> ordinary characters (none of \<^verbatim>\<open>\ ^ $ . * + ? ( ) [ ] { } |\<close>), which match themselves,
  \<^item> the dot, which matches every character but a line terminator,
  \<^item> the quantifiers \<^verbatim>\<open>*\<close>, \<^verbatim>\<open>+\<close>, \<^verbatim>\<open>?\<close> (and \<^verbatim>\<open>?\<close> after one, making it lazy): a
    quantifier with nothing to repeat is the \<^verbatim>\<open>SyntaxError\<close>; a source where every
    quantifier has something to repeat is a pattern whose matching is not interpreted.
  \<open>Unsupported\<close> is no outcome of the program: it marks the sources that this
  development does not interpret.
\<close>

datatype error = SyntaxError | Unsupported

type_synonym engine = "string \<Rightarrow> string \<Rightarrow> error + nat"

datatype atom = Lit char | AnyChar

datatype position = NothingToRepeat | AfterAtom | AfterQuantifier

definition isSyntaxCharacter :: "char \<Rightarrow> bool" where
  "isSyntaxCharacter c = (c \<in> set [CHR 0x5C, CHR ''^'', CHR ''$'', CHR ''.'', CHR ''*'', CHR ''+'',
     CHR ''?'', CHR ''('', CHR '')'', CHR ''['', CHR '']'', CHR ''{'', CHR ''}'', CHR ''|''])"

fun parsePattern :: "position \<Rightarrow> string \<Rightarrow> error + atom list" where
  "parsePattern p [] = Inr []"
| "parsePattern p (c # cs) =
     (if c = CHR ''*'' \<or> c = CHR ''+'' \<or> (c = CHR ''?'' \<and> p \<noteq> AfterQuantifier) then
        (if p = AfterAtom then
           (case parsePattern AfterQuantifier cs of Inl e \<Rightarrow> Inl e | Inr _ \<Rightarrow> Inl Unsupported)
         else Inl SyntaxError)
      else if c = CHR ''?'' then
        (case parsePattern NothingToRepeat cs of Inl e \<Rightarrow> Inl e | Inr _ \<Rightarrow> Inl Unsupported)
      else if c = CHR ''.'' then
        (case parsePattern AfterAtom cs of Inl e \<Rightarrow> Inl e | Inr atoms \<Rightarrow> Inr (AnyChar # atoms))
      else if isSyntaxCharacter c then Inl Unsupported
      else
        (case parsePattern AfterAtom cs of Inl e \<Rightarrow> Inl e | Inr atoms \<Rightarrow> Inr (Lit c # atoms)))"

fun atomMatches :: "atom \<Rightarrow> char \<Rightarrow> bool" where
  "atomMatches (Lit d) c = (c = d)"
| "atomMatches AnyChar c = (c \<noteq> CHR 0x0A \<and> c \<noteq> CHR 0x0D)"

fun matchesAt :: "atom list \<Rightarrow> string \<Rightarrow> bool" where
  "matchesAt [] t = True"
| "matchesAt (a # as) [] = False"
| "matchesAt (a # as) (c # cs) = (atomMatches a c \<and> matchesAt as cs)"

text \<open>
  The matches of a pattern of \<open>n > 0\<close> atoms: at a position where the pattern matches,
  one match, and the search goes on \<open>n\<close> characters further (\<open>skip\<close> counts the
  characters of the last match still to pass); elsewhere it goes on at the next
  character. The empty pattern matches the empty string at every position, the end
  included.
\<close>

fun countFrom :: "atom list \<Rightarrow> nat \<Rightarrow> string \<Rightarrow> nat" where
  "countFrom atoms skip [] = 0"
| "countFrom atoms (Suc k) (c # cs) = countFrom atoms k cs"
| "countFrom atoms 0 (c # cs) =
     (if matchesAt atoms (c # cs) then 1 + countFrom atoms (length atoms - 1) cs
      else countFrom atoms 0 cs)"

definition countMatches :: "atom list \<Rightarrow> string \<Rightarrow> nat" where
  "countMatches atoms text = (if atoms = [] then length text + 1 else countFrom atoms 0 text)"

definition regExpMatchCount :: engine where
  "regExpMatchCount source text =
     (case parsePattern NothingToRepeat source of
        Inl e \<Rightarrow> Inl e
      | Inr atoms \<Rightarrow> Inr (countMatches atoms text))"

section \<open>AdvancedKnowledgeBase\<close>

text \<open>
  A document of \<^verbatim>\<open>this.documents\<close>; \<open>ident\<close> is its field \<^verbatim>\<open>id\<close>. The fields are
  strings and \<^verbatim>\<open>tags\<close> is an array of strings, as addDocument and the default
  knowledge base make them.
\<close>

record document =
  ident :: string
  title :: string
  content :: string
  category :: string
  tags :: "string list"
  metadata :: "(string \<times> string) list"
  timestamp :: string

text \<open>
  A result of keywordSearch is \<^verbatim>\<open>{ ...doc, relevanceScore: score }\<close>: the document's
  fields (\<open>doc\<close>) and the score. The score is a sum of the integers 5, 3, 2 and of match
  counts: a natural number.
\<close>

record keywordResult =
  doc :: document
  relevanceScore :: nat

subsection \<open>keywordSearch\<close>

fun tagMatches :: "string \<Rightarrow> string list \<Rightarrow> nat \<Rightarrow> nat" where
  "tagMatches queryLower [] score = score"
| "tagMatches queryLower (tag # ts) score =
     tagMatches queryLower ts (if includesStr (toLowerCase tag) queryLower then score + 2 else score)"

text \<open>The loop over \<^verbatim>\<open>queryWords\<close>; the first exception ends it.\<close>

fun wordMatches :: "engine \<Rightarrow> string list \<Rightarrow> string \<Rightarrow> string \<Rightarrow> nat \<Rightarrow> error + nat" where
  "wordMatches rx [] titleLower contentLower score = Inr score"
| "wordMatches rx (word # ws) titleLower contentLower score =
     (if length word > 2 then
        (case rx word titleLower of
           Inl e \<Rightarrow> Inl e
         | Inr titleMatches \<Rightarrow>
             (case rx word contentLower of
                Inl e \<Rightarrow> Inl e
              | Inr contentMatches \<Rightarrow>
                  wordMatches rx ws titleLower contentLower
                    (score + (titleMatches * 2 + contentMatches * 1))))
      else wordMatches rx ws titleLower contentLower score)"

definition scoreDocument :: "engine \<Rightarrow> string \<Rightarrow> document \<Rightarrow> error + nat" where
  "scoreDocument rx queryLower d =
     (let score = 0;
          score = (if includesStr (toLowerCase (title d)) queryLower then score + 5 else score);
          score = (if includesStr (toLowerCase (content d)) queryLower then score + 3 else score);
          score = tagMatches queryLower (tags d) score;
          queryWords = splitWhitespace queryLower
      in wordMatches rx queryWords (toLowerCase (title d)) (toLowerCase (content d)) score)"

text \<open>The loop over \<^verbatim>\<open>this.documents\<close>, pushing the documents with a score above 0.\<close>

fun scoreDocuments :: "engine \<Rightarrow> string \<Rightarrow> document list \<Rightarrow> error + keywordResult list" where
  "scoreDocuments rx queryLower [] = Inr []"
| "scoreDocuments rx queryLower (d # ds) =
     (case scoreDocument rx queryLower d of
        Inl e \<Rightarrow> Inl e
      | Inr score \<Rightarrow>
          (case scoreDocuments rx queryLower ds of
             Inl e \<Rightarrow> Inl e
           | Inr results \<Rightarrow>
               Inr (if score > 0 then \<lparr>doc = d, relevanceScore = score\<rparr> # results else results)))"

definition byRelevance :: "keywordResult \<Rightarrow> keywordResult \<Rightarrow> jsnum" where
  "byRelevance a b = Num (real (relevanceScore b) - real (relevanceScore a))"

definition keywordSearch :: "engine \<Rightarrow> document list \<Rightarrow> string \<Rightarrow> nat \<Rightarrow> error + keywordResult list" where
  "keywordSearch rx documents query maxResults =
     (let queryLower = toLowerCase query
      in case scoreDocuments rx queryLower documents of
           Inl e \<Rightarrow> Inl e
         | Inr results \<Rightarrow> Inr (take maxResults (sortBy byRelevance results)))"

subsection \<open>hybridRetrieval\<close>

text \<open>
  An entry of \<^verbatim>\<open>combinedResults\<close>: the fields of a document or of a keyword result
  (\<open>source\<close>: the document; \<open>relevance\<close>: the \<^verbatim>\<open>relevanceScore\<close> that a keyword result
  brings along, absent on an entry made from a vector hit) and the three scores. The
  \<^verbatim>\<open>Map\<close> keeps its keys in insertion order; \<^verbatim>\<open>set\<close> on a key it has replaces the
  value in place.
\<close>

record scoredResult =
  source :: document
  relevance :: "nat option"
  keywordScore :: jsnum
  vectorScore :: jsnum
  combinedScore :: jsnum

type_synonym resultMap = "(string \<times> scoredResult) list"

fun mapSet :: "string \<Rightarrow> 'v \<Rightarrow> (string \<times> 'v) list \<Rightarrow> (string \<times> 'v) list" where
  "mapSet k v [] = [(k, v)]"
| "mapSet k v ((k', v') # m) = (if k' = k then (k, v) # m else (k', v') # mapSet k v m)"

text \<open>\<^verbatim>\<open>doc.relevanceScore || 0\<close> is the score: a number \<open>x\<close> other than 0 is truthy, and
  for 0 the alternative is 0.\<close>

definition addKeywordResult :: "resultMap \<Rightarrow> keywordResult \<Rightarrow> resultMap" where
  "addKeywordResult combinedResults r =
     mapSet (ident (doc r))
       \<lparr>source = doc r, relevance = Some (relevanceScore r),
        keywordScore = Num (real (relevanceScore r)), vectorScore = Num 0,
        combinedScore = Num (real (relevanceScore r))\<rparr>
       combinedResults"

definition addVectorResult :: "document list \<Rightarrow> resultMap \<Rightarrow> hit \<Rightarrow> resultMap" where
  "addVectorResult documents combinedResults h =
     (case find (\<lambda>d. ident d = docId h) documents of
        None \<Rightarrow> combinedResults
      | Some d \<Rightarrow>
          (case map_of combinedResults (ident d) of
             Some existing \<Rightarrow>
               mapSet (ident d)
                 (existing\<lparr>vectorScore := similarity h,
                    combinedScore :=
                      jsadd (jsmul (keywordScore existing) (Num (6/10)))
                            (jsmul (similarity h) (Num (4/10)))\<rparr>)
                 combinedResults
           | None \<Rightarrow>
               mapSet (ident d)
                 \<lparr>source = d, relevance = None, keywordScore = Num 0,
                  vectorScore = similarity h,
                  combinedScore = jsmul (similarity h) (Num (4/10))\<rparr>
                 combinedResults))"

definition fuse :: "document list \<Rightarrow> keywordResult list \<Rightarrow> hit list \<Rightarrow> resultMap" where
  "fuse documents keywordResults vectorResults =
     foldl (addVectorResult documents) (foldl addKeywordResult [] keywordResults) vectorResults"

definition byCombinedScore :: "scoredResult \<Rightarrow> scoredResult \<Rightarrow> jsnum" where
  "byCombinedScore a b = jssub (combinedScore b) (combinedScore a)"

definition hybridRetrieval ::
  "engine \<Rightarrow> (string \<rightharpoonup> vector) \<Rightarrow> document list \<Rightarrow> string \<Rightarrow> nat \<Rightarrow> error + scoredResult list" where
  "hybridRetrieval rx embeddings documents query maxResults =
     (case keywordSearch rx documents query (maxResults * 2) of
        Inl e \<Rightarrow> Inl e
      | Inr keywordResults \<Rightarrow>
          let docIds = map ident documents;
              vectorResults = vectorSearch embeddings query docIds (maxResults * 2);
              combinedResults = fuse documents keywordResults vectorResults
          in Inr (take maxResults (sortBy byCombinedScore (map snd combinedResults))))"

section \<open>Auxiliary notions for the statements\<close>

fun numval :: "jsnum \<Rightarrow> real" where
  "numval (Num a) = a"
| "numval NaN = 0"

section \<open>The worked corpus\<close>

text \<open>The two documents of the specification's worked scenario, and two more.\<close>

definition docA :: document where
  "docA = \<lparr>ident = ''docA'', title = ''Alpha Systems'', content = ''alpha beta gamma alpha'',
           category = ''general'', tags = [''alpha''], metadata = [], timestamp = ''2024''\<rparr>"

definition docB :: document where
  "docB = \<lparr>ident = ''docB'', title = ''Beta Overview'', content = ''beta gamma delta'',
           category = ''general'', tags = [''beta''], metadata = [], timestamp = ''2024''\<rparr>"

definition docC :: document where
  "docC = \<lparr>ident = ''docC'', title = ''Constructor Patterns'', content = ''a constructor builds objects'',
           category = ''general'', tags = [], metadata = [], timestamp = ''2024''\<rparr>"

definition docD :: document where
  "docD = \<lparr>ident = ''docD'', title = ''Delta'', content = ''delta delta'',
           category = ''general'', tags = [''delta''], metadata = [], timestamp = ''2024''\<rparr>"

text \<open>A document is vectorized as \<^verbatim>\<open>title + " " + content\<close> (addDocument).\<close>

definition embed :: "(string \<rightharpoonup> vector) \<Rightarrow> document \<Rightarrow> (string \<rightharpoonup> vector)" where
  "embed embeddings d = saveEmbedding embeddings (ident d) (title d @ '' '' @ content d)"

text \<open>A knowledge base of Doc A, Doc B and Doc D where Doc B has not been vectorized.\<close>

definition exampleDocuments :: "document list" where
  "exampleDocuments = [docA, docB, docD]"

definition exampleEmbeddings :: "string \<rightharpoonup> vector" where
  "exampleEmbeddings = embed (embed Map.empty docA) docD"

section \<open>The scoring rule as the specification words it\<close>

text \<open>
  The occurrences of a word in a text, read literally: the places where the word itself
  stands, counted from left to right, the search going on after each one.
\<close>

definition literalOccurrences :: "string \<Rightarrow> string \<Rightarrow> nat" where
  "literalOccurrences word text = countMatches (map Lit word) text"

definition claimedScore :: "string \<Rightarrow> document \<Rightarrow> nat" where
  "claimedScore query d =
     (let q = toLowerCase query; t = toLowerCase (title d); c = toLowerCase (content d)
      in (if includesStr t q then 5 else 0)
       + (if includesStr c q then 3 else 0)
       + 2 * length (filter (\<lambda>tag. includesStr (toLowerCase tag) q) (tags d))
       + (\<Sum>word\<leftarrow>filter (\<lambda>w. length w > 2) (splitWhitespace q).
            2 * literalOccurrences word t + literalOccurrences word c))"

text \<open>Descending order of a list of numbers, compared as JavaScript compares.\<close>

fun descending :: "jsnum list \<Rightarrow> bool" where
  "descending [] = True"
| "descending [x] = True"
| "descending (x # y # ys) = (jsge x y \<and> descending (y # ys))"

text \<open>
  What fusion establishes for an entry \<open>(k, r)\<close> of \<^verbatim>\<open>combinedResults\<close>, once the
  keyword results \<open>K\<close> and the vector hits \<open>P\<close> have been added: the entry is keyed by
  its document's id; its keyword score is the score of a result of \<open>K\<close> with that id, or 0
  when there is none; its vector score is the similarity of a hit of \<open>P\<close> with that id
  (the id of a live document), or 0; and its combined score is the blend, the scaled
  similarity or the raw keyword score, according to where the id occurs.
\<close>

definition inKeyword :: "keywordResult list \<Rightarrow> string \<Rightarrow> bool" where
  "inKeyword K k = (k \<in> set (map (\<lambda>x. ident (doc x)) K))"

definition inVector :: "document list \<Rightarrow> hit list \<Rightarrow> string \<Rightarrow> bool" where
  "inVector documents P k = (k \<in> set (map docId P) \<and> k \<in> set (map ident documents))"

definition keywordScoreOf :: "keywordResult list \<Rightarrow> string \<Rightarrow> jsnum \<Rightarrow> bool" where
  "keywordScoreOf K k s =
     (if inKeyword K k
      then \<exists>x. x \<in> set K \<and> ident (doc x) = k \<and> s = Num (real (relevanceScore x))
      else s = Num 0)"

definition vectorScoreOf :: "document list \<Rightarrow> hit list \<Rightarrow> string \<Rightarrow> jsnum \<Rightarrow> bool" where
  "vectorScoreOf documents P k s =
     (if inVector documents P k
      then \<exists>h. h \<in> set P \<and> docId h = k \<and> s = similarity h
      else s = Num 0)"

definition entryInvariant ::
  "document list \<Rightarrow> keywordResult list \<Rightarrow> hit list \<Rightarrow> string \<times> scoredResult \<Rightarrow> bool" where
  "entryInvariant documents K P e =
     (let k = fst e; r = snd e
      in ident (source r) = k
       \<and> (source r \<in> set documents \<or> source r \<in> set (map doc K))
       \<and> keywordScoreOf K k (keywordScore r)
       \<and> vectorScoreOf documents P k (vectorScore r)
       \<and> combinedScore r =
           (if inVector documents P k then
              (if inKeyword K k
               then jsadd (jsmul (keywordScore r) (Num (6/10))) (jsmul (vectorScore r) (Num (4/10)))
               else jsmul (vectorScore r) (Num (4/10)))
            else keywordScore r)
       \<and> (inKeyword K k \<or> inVector documents P k))"

section \<open>Properties of the string operations\<close>

text \<open>
  The operations on strings against their meaning: lower-casing adds 32 to the code of an
  upper-case letter, \<open>includesStr\<close> is the substring relation, the tokens of a text are
  non-empty runs of word characters, and the pieces of a split hold no white space.
\<close>

lemma lowerChar_code:
  "of_char (lowerChar c) = (if isUpper c then of_char c + 32 else (of_char c :: nat))"
proof (cases c)
  case (Char b0 b1 b2 b3 b4 b5 b6 b7)
  define r :: nat where
    "r = of_bool b0 + (2 * of_bool b1 + (4 * of_bool b2 + (8 * of_bool b3 + 16 * of_bool b4)))"
  have r: "r < 32" by (simp add: r_def of_bool_def)
  have n: "(of_char c :: nat) = r + 32 * of_bool b5 + 64 * of_bool b6 + 128 * of_bool b7"
    by (simp add: Char r_def)
  have s: "(of_char (setBit5 c) :: nat) = r + 32 + 64 * of_bool b6 + 128 * of_bool b7"
    by (simp add: Char r_def)
  have "\<not> b5" if "isUpper c"
    using that r unfolding isUpper_def Let_def n by (cases b6; cases b7; cases b5; simp)
  then show ?thesis
    unfolding lowerChar_def using n s by simp
qed

lemma includesStr_sublist: "includesStr t q = sublist q t"
  by (induction t) (auto simp: sublist_Cons_right)

lemma matchWords_word_characters:
  assumes "w \<in> set (matchWords cur s)" "\<forall>c\<in>set cur. isWordChar c"
  shows "w \<noteq> [] \<and> (\<forall>c\<in>set w. isWordChar c)"
  using assms
proof (induction cur s rule: matchWords.induct)
  case (1 cur)
  then show ?case by (cases "cur = []") simp_all
next
  case (2 cur c cs)
  show ?case
  proof (cases "isWordChar c")
    case True
    have "w \<in> set (matchWords (cur @ [c]) cs)" using "2.prems"(1) True by simp
    moreover have "\<forall>x\<in>set (cur @ [c]). isWordChar x" using "2.prems"(2) True by simp
    ultimately show ?thesis by (rule "2.IH"(1) [OF True])
  next
    case False
    show ?thesis
    proof (cases "cur = []")
      case True
      have "w \<in> set (matchWords [] cs)" using "2.prems"(1) True False by simp
      moreover have "\<forall>x\<in>set []. isWordChar x" by simp
      ultimately show ?thesis by (rule "2.IH"(2) [OF False True])
    next
      case cur: False
      with False "2.prems"(1) have "w = cur \<or> w \<in> set (matchWords [] cs)" by simp
      then show ?thesis
      proof
        assume "w = cur"
        with cur "2.prems"(2) show ?thesis by simp
      next
        assume "w \<in> set (matchWords [] cs)"
        moreover have "\<forall>x\<in>set []. isWordChar x" by simp
        ultimately show ?thesis by (rule "2.IH"(3) [OF False cur])
      qed
    qed
  qed
qed

lemma splitWs_no_whitespace:
  assumes "w \<in> set (splitWs b cur s)" "\<forall>c\<in>set cur. \<not> isWhiteSpace c"
  shows "\<forall>c\<in>set w. \<not> isWhiteSpace c"
  using assms
proof (induction b cur s rule: splitWs.induct)
  case (1 inSep cur)
  then show ?case by simp
next
  case (2 inSep cur c cs)
  show ?case
  proof (cases "isWhiteSpace c")
    case False
    have "w \<in> set (splitWs False (cur @ [c]) cs)" using "2.prems"(1) False by simp
    moreover have "\<forall>x\<in>set (cur @ [c]). \<not> isWhiteSpace x" using "2.prems"(2) False by simp
    ultimately show ?thesis by (rule "2.IH"(3) [OF False])
  next
    case True
    show ?thesis
    proof (cases inSep)
      case inSep: True
      have "w \<in> set (splitWs True cur cs)" using "2.prems"(1) True inSep by simp
      then show ?thesis using "2.prems"(2) by (rule "2.IH"(1) [OF True inSep])
    next
      case False
      with True "2.prems"(1) have "w = cur \<or> w \<in> set (splitWs True [] cs)" by simp
      then show ?thesis
      proof
        assume "w = cur"
        with "2.prems"(2) show ?thesis by simp
      next
        assume "w \<in> set (splitWs True [] cs)"
        moreover have "\<forall>x\<in>set []. \<not> isWhiteSpace x" by simp
        ultimately show ?thesis by (rule "2.IH"(2) [OF True False])
      qed
    qed
  qed
qed

section \<open>Properties of cosineSimilarity\<close>

lemma foldl_products_Num:
  assumes "\<forall>w\<in>set ws. isNumber (weightOf v1 w) \<and> isNumber (weightOf v2 w)"
  shows "foldl (\<lambda>acc w. jsadd acc (jsmul (weightOf v1 w) (weightOf v2 w))) (Num a) ws
         = Num (a + (\<Sum>w\<leftarrow>ws. numval (weightOf v1 w) * numval (weightOf v2 w)))"
  using assms
proof (induction ws arbitrary: a)
  case Nil
  then show ?case by simp
next
  case (Cons w ws)
  obtain x y where "weightOf v1 w = Num x" "weightOf v2 w = Num y"
    using Cons.prems by (cases "weightOf v1 w"; cases "weightOf v2 w") auto
  then show ?case using Cons by (simp add: add.assoc)
qed

lemma sumProducts_Num:
  assumes "\<forall>w\<in>set ws. isNumber (weightOf v1 w) \<and> isNumber (weightOf v2 w)"
  shows "sumProducts v1 v2 ws = Num (\<Sum>w\<leftarrow>ws. numval (weightOf v1 w) * numval (weightOf v2 w))"
  using foldl_products_Num [OF assms, of 0] by (simp add: sumProducts_def)

lemma foldl_products_NaN:
  "foldl (\<lambda>acc w. jsadd acc (jsmul (weightOf v1 w) (weightOf v2 w))) NaN ws = NaN"
  by (induction ws) auto

lemma foldl_products_isNumber:
  assumes "foldl (\<lambda>acc w. jsadd acc (jsmul (weightOf v1 w) (weightOf v2 w))) (Num a) ws = Num s"
  shows "\<forall>w\<in>set ws. isNumber (weightOf v1 w) \<and> isNumber (weightOf v2 w)"
  using assms
proof (induction ws arbitrary: a)
  case Nil
  then show ?case by simp
next
  case (Cons w ws)
  show ?case
  proof (cases "weightOf v1 w"; cases "weightOf v2 w")
    fix x y assume xy: "weightOf v1 w = Num x" "weightOf v2 w = Num y"
    with Cons.prems have "foldl (\<lambda>acc w. jsadd acc (jsmul (weightOf v1 w) (weightOf v2 w))) (Num (a + x * y)) ws = Num s"
      by simp
    from Cons.IH [OF this] xy show ?thesis by simp
  qed (use Cons.prems in \<open>simp_all add: foldl_products_NaN\<close>)
qed

lemma sumProducts_isNumber:
  "sumProducts v1 v2 ws = Num s \<Longrightarrow> \<forall>w\<in>set ws. isNumber (weightOf v1 w) \<and> isNumber (weightOf v2 w)"
  unfolding sumProducts_def by (rule foldl_products_isNumber)

lemma sum_squares_zero:
  "(\<Sum>w\<leftarrow>ws. f w * f w) = (0::real) \<Longrightarrow> w \<in> set ws \<Longrightarrow> f w = 0"
proof (induction ws)
  case Nil then show ?case by simp
next
  case (Cons x xs)
  have nn: "0 \<le> (\<Sum>w\<leftarrow>xs. f w * f w)" by (rule sum_list_nonneg) auto
  have "f x * f x = 0" "(\<Sum>w\<leftarrow>xs. f w * f w) = 0"
    using Cons.prems(1) nn zero_le_square [of "f x"] by (simp_all add: add_nonneg_eq_0_iff)
  with Cons show ?case by auto
qed

lemma sum_squares_pos:
  assumes "w \<in> set ws" "f w \<noteq> (0::real)"
  shows "0 < (\<Sum>w\<leftarrow>ws. f w * f w)"
proof -
  have "0 \<le> (\<Sum>w\<leftarrow>ws. f w * f w)" by (rule sum_list_nonneg) auto
  moreover have "(\<Sum>w\<leftarrow>ws. f w * f w) \<noteq> 0" using sum_squares_zero [of f ws w] assms by blast
  ultimately show ?thesis by simp
qed

text \<open>
  The division of cosineSimilarity: when the divisor is 0 the dividend is 0 as well, so
  the quotient is the \<open>NaN\<close> of \<open>jsdiv\<close> (0/0) and never an infinity.
\<close>

lemma sum_list_all_zero: "(\<And>w. w \<in> set ws \<Longrightarrow> g w = (0::real)) \<Longrightarrow> (\<Sum>w\<leftarrow>ws. g w) = 0"
  by (induction ws) auto

lemma jsmul_eq_Num: "jsmul x y = Num c \<Longrightarrow> \<exists>a b. x = Num a \<and> y = Num b \<and> c = a * b"
  by (cases x; cases y) auto

lemma jssqrt_eq_Num: "jssqrt x = Num c \<Longrightarrow> \<exists>a. x = Num a \<and> 0 \<le> a \<and> c = sqrt a"
  by (cases x) (auto split: if_splits)

lemma cosineSimilarity_zero_divisor:
  assumes "jsmul (jssqrt (sumProducts vec1 vec1 (keys vec1))) (jssqrt (sumProducts vec2 vec2 (keys vec2))) = Num 0"
  shows "sumProducts vec1 vec2 (filter (\<lambda>x. x \<in> set (keys vec2)) (keys vec1)) = Num 0"
proof -
  let ?f1 = "\<lambda>w. numval (weightOf vec1 w)" and ?f2 = "\<lambda>w. numval (weightOf vec2 w)"
  let ?common = "filter (\<lambda>x. x \<in> set (keys vec2)) (keys vec1)"
  obtain x y where xy: "jssqrt (sumProducts vec1 vec1 (keys vec1)) = Num x"
      "jssqrt (sumProducts vec2 vec2 (keys vec2)) = Num y" "x * y = 0"
    using jsmul_eq_Num [OF assms] by auto
  obtain a where a: "sumProducts vec1 vec1 (keys vec1) = Num a" "0 \<le> a" "x = sqrt a"
    using jssqrt_eq_Num [OF xy(1)] by auto
  obtain b where b: "sumProducts vec2 vec2 (keys vec2) = Num b" "0 \<le> b" "y = sqrt b"
    using jssqrt_eq_Num [OF xy(2)] by auto
  have n1: "\<forall>w\<in>set (keys vec1). isNumber (weightOf vec1 w)" using sumProducts_isNumber [OF a(1)] by simp
  have n2: "\<forall>w\<in>set (keys vec2). isNumber (weightOf vec2 w)" using sumProducts_isNumber [OF b(1)] by simp
  have a': "a = (\<Sum>w\<leftarrow>keys vec1. ?f1 w * ?f1 w)" using a(1) n1 by (simp add: sumProducts_Num)
  have b': "b = (\<Sum>w\<leftarrow>keys vec2. ?f2 w * ?f2 w)" using b(1) n2 by (simp add: sumProducts_Num)
  have ab: "a = 0 \<or> b = 0" using xy(3) a(3) b(3) by simp
  have z: "?f1 w * ?f2 w = 0" if "w \<in> set ?common" for w
  proof -
    from that have w: "w \<in> set (keys vec1)" "w \<in> set (keys vec2)" by auto
    from ab show ?thesis
    proof
      assume "a = 0"
      then have "?f1 w = 0" using sum_squares_zero [of ?f1 "keys vec1" w] a' w(1) by simp
      then show ?thesis by simp
    next
      assume "b = 0"
      then have "?f2 w = 0" using sum_squares_zero [of ?f2 "keys vec2" w] b' w(2) by simp
      then show ?thesis by simp
    qed
  qed
  have num: "\<forall>w\<in>set ?common. isNumber (weightOf vec1 w) \<and> isNumber (weightOf vec2 w)"
    using n1 n2 by simp
  have "(\<Sum>w\<leftarrow>?common. ?f1 w * ?f2 w) = 0"
    by (rule sum_list_all_zero) (rule z)
  then show ?thesis using sumProducts_Num [OF num] by simp
qed


text \<open>The division of vectorize: a vector with an entry comes from a text with a token.\<close>

lemma vectorize_divisor_positive:
  "vectorize text \<noteq> [] \<Longrightarrow> 0 < length (matchWords [] (toLowerCase text))"
  by (cases "matchWords [] (toLowerCase text)") (auto simp: vectorize_def Let_def)


text \<open>
  C7. When one of the two vectors is empty, or both are, or no key of the one is a key
  of the other, cosineSimilarity returns the number 0: it returns early, before any
  division, so the result is not \<open>NaN\<close>. cosineSimilarity has no exception in the
  model, as the source has none on objects.
\<close>

theorem cosineSimilarity_degenerate:
  assumes "vec1 = [] \<or> vec2 = [] \<or> set (keys vec1) \<inter> set (keys vec2) = {}"
  shows "cosineSimilarity vec1 vec2 = Num 0 \<and> cosineSimilarity vec1 vec2 \<noteq> NaN"
proof -
  have "filter (\<lambda>x. x \<in> set (keys vec2)) (keys vec1) = []"
    using assms by (auto simp: keys_def filter_empty_conv)
  then show ?thesis
    by (simp add: cosineSimilarity_def)
qed

theorem cosineSimilarity_degenerate_witness:
  "cosineSimilarity [] [(''alpha'', Num 1)] = Num 0
   \<and> cosineSimilarity [(''alpha'', Num 1)] [] = Num 0
   \<and> cosineSimilarity [(''alpha'', Num (1/2)), (''beta'', Num (1/2))] [(''gamma'', Num 1)] = Num 0"
  using cosineSimilarity_degenerate [of "[]" "[(''alpha'', Num 1)]"]
        cosineSimilarity_degenerate [of "[(''alpha'', Num 1)]" "[]"]
        cosineSimilarity_degenerate
          [of "[(''alpha'', Num (1/2)), (''beta'', Num (1/2))]" "[(''gamma'', Num 1)]"]
  by (simp add: keys_def)

text \<open>
  In the arithmetic of the reals cosineSimilarity of a vector with itself is 1 when the
  weights are numbers, one of them other than 0: the dot product and both squared norms
  are the same sum \<open>s > 0\<close>, and the result is \<open>s / (sqrt s * sqrt s)\<close>. This is the
  value that the doubles of the source approximate; what the source computes is in
  section \<open>Properties of cosineSimilarity in binary64\<close>.
\<close>

lemma cosineSimilarity_exact_self:
  assumes numbers: "\<forall>w\<in>set (keys V). isNumber (weightOf V w)"
      and nonzero: "\<exists>w\<in>set (keys V). weightOf V w \<noteq> Num 0"
  shows "cosineSimilarity V V = Num 1"
proof -
  let ?s = "\<Sum>w\<leftarrow>keys V. numval (weightOf V w) * numval (weightOf V w)"
  obtain w where w: "w \<in> set (keys V)" "weightOf V w \<noteq> Num 0" using nonzero by blast
  then have "numval (weightOf V w) \<noteq> 0" using numbers by (cases "weightOf V w") auto
  with w have pos: "0 < ?s" using sum_squares_pos [of w "keys V" "\<lambda>w. numval (weightOf V w)"] by simp
  have common: "filter (\<lambda>x. x \<in> set (keys V)) (keys V) = keys V" by simp
  have ne: "keys V \<noteq> []" using w by auto
  have sp: "sumProducts V V (keys V) = Num ?s" using numbers by (simp add: sumProducts_Num)
  show ?thesis using pos ne by (simp add: cosineSimilarity_def common sp Let_def)
qed

section \<open>Evaluation\<close>

text \<open>The equations that evaluate the model on a concrete input.\<close>

lemmas strings = toLowerCase_def lowerChar_def isUpper_def isWordChar_def isWhiteSpace_def
  splitWhitespace_def
lemmas corpus = docA_def docB_def docC_def docD_def exampleDocuments_def exampleEmbeddings_def
  embed_def saveEmbedding_def
lemmas regexps = regExpMatchCount_def countMatches_def isSyntaxCharacter_def
lemmas keyword = scoreDocument_def keywordSearch_def sortBy_def byRelevance_def Let_def

section \<open>Properties of keywordSearch\<close>

subsection \<open>The empty query\<close>

lemma includesStr_empty [simp]: "includesStr t []"
  by (cases t) simp_all

lemma tagMatches_empty: "tagMatches [] ts score = score + 2 * length ts"
  by (induction ts arbitrary: score) simp_all

lemma scoreDocument_empty: "scoreDocument rx [] d = Inr (8 + 2 * length (tags d))"
  by (simp add: scoreDocument_def splitWhitespace_def tagMatches_empty)

lemma scoreDocuments_empty:
  "scoreDocuments rx [] ds = Inr (map (\<lambda>d. \<lparr>doc = d, relevanceScore = 8 + 2 * length (tags d)\<rparr>) ds)"
  by (induction ds) (simp_all add: scoreDocument_empty)

subsection \<open>Sorting keeps the elements\<close>

lemma length_insertBy [simp]: "length (insertBy cmp x ys) = Suc (length ys)"
  by (induction ys) simp_all

lemma length_sortBy [simp]: "length (sortBy cmp xs) = length xs"
  by (induction xs) (simp_all add: sortBy_def)

lemma set_insertBy [simp]: "set (insertBy cmp x ys) = insert x (set ys)"
  by (induction ys) auto

lemma set_sortBy [simp]: "set (sortBy cmp xs) = set xs"
  by (induction xs) (simp_all add: sortBy_def)

lemma distinct_map_insertBy:
  "distinct (map f (insertBy cmp x ys)) = (f x \<notin> f ` set ys \<and> distinct (map f ys))"
  by (induction ys) auto

lemma sortBy_Nil [simp]: "sortBy cmp [] = []"
  by (simp add: sortBy_def)

lemma sortBy_Cons: "sortBy cmp (x # xs) = insertBy cmp x (sortBy cmp xs)"
  by (simp add: sortBy_def)

lemma distinct_map_sortBy: "distinct (map f (sortBy cmp xs)) = distinct (map f xs)"
  by (induction xs) (simp_all add: sortBy_Cons distinct_map_insertBy)

subsection \<open>Fusion never removes an entry\<close>

lemma mapSet_not_Nil [simp]: "mapSet k v m \<noteq> []"
  by (cases m) (auto split: if_splits)

lemma addVectorResult_not_Nil: "m \<noteq> [] \<Longrightarrow> addVectorResult ds m h \<noteq> []"
  by (simp add: addVectorResult_def split: option.splits)

lemma foldl_addVectorResult_not_Nil: "m \<noteq> [] \<Longrightarrow> foldl (addVectorResult ds) m hs \<noteq> []"
  by (induction hs arbitrary: m) (simp_all add: addVectorResult_not_Nil)

lemma foldl_addKeywordResult_not_Nil: "m \<noteq> [] \<or> rs \<noteq> [] \<Longrightarrow> foldl addKeywordResult m rs \<noteq> []"
  by (induction rs arbitrary: m) (auto simp: addKeywordResult_def)

lemma fuse_not_Nil: "rs \<noteq> [] \<Longrightarrow> fuse ds rs hs \<noteq> []"
  by (simp add: fuse_def foldl_addVectorResult_not_Nil foldl_addKeywordResult_not_Nil)

text \<open>
  The comparator of keywordSearch, \<^verbatim>\<open>b.relevanceScore - a.relevanceScore\<close>, is a
  difference of integers and never \<open>NaN\<close>: the sort is the stable sort by descending
  score.
\<close>

lemma insertBy_byRelevance:
  "insertBy byRelevance x ys = insort_key (\<lambda>r. - int (relevanceScore r)) x ys"
  by (induction ys) (auto simp: byRelevance_def)

lemma sortBy_byRelevance:
  "sortBy byRelevance rs = sort_key (\<lambda>r. - int (relevanceScore r)) rs"
  by (induction rs) (simp_all add: sortBy_Cons insertBy_byRelevance)

lemma sortBy_byRelevance_descending:
  "sorted_wrt (\<lambda>a b. relevanceScore b \<le> relevanceScore a) (sortBy byRelevance rs)"
proof -
  have "sorted (map (\<lambda>r. - int (relevanceScore r)) (sort_key (\<lambda>r. - int (relevanceScore r)) rs))"
    by (rule sorted_sort_key)
  then show ?thesis by (simp add: sortBy_byRelevance sorted_map)
qed

lemma keywordSearch_descending:
  assumes "keywordSearch rx documents query maxResults = Inr out"
  shows "sorted_wrt (\<lambda>a b. relevanceScore b \<le> relevanceScore a) out"
proof -
  obtain rs where "out = take maxResults (sortBy byRelevance rs)"
    using assms by (auto simp: keywordSearch_def Let_def split: sum.splits)
  then show ?thesis by (simp add: sortBy_byRelevance_descending)
qed

text \<open>
  C1, as amended. \<^verbatim>\<open>includes("")\<close> is true of every string, so for the empty query
  keywordSearch gives every document the score 5 + 3 + 2 for each of its tags, at least 8.
  It returns the first \<open>maxResults\<close> of the documents sorted by descending score
  (\<open>sort_key\<close> is the stable sort of the library, by ascending key): the result is in
  descending order of score and has \<open>min maxResults (length documents)\<close> elements. The
  query has no word longer than 2, no regular expression is built, and neither
  keywordSearch nor hybridRetrieval raises; hybridRetrieval returns a non-empty list
  when there is a document and \<open>maxResults > 0\<close>.
\<close>

theorem empty_query_matches_every_document:
  "(\<exists>out. keywordSearch rx documents [] maxResults = Inr out
        \<and> out = take maxResults (sort_key (\<lambda>r. - int (relevanceScore r))
                   (map (\<lambda>d. \<lparr>doc = d, relevanceScore = 8 + 2 * length (tags d)\<rparr>) documents))
        \<and> sorted_wrt (\<lambda>a b. relevanceScore b \<le> relevanceScore a) out
        \<and> length out = min maxResults (length documents))
   \<and> (\<exists>out. hybridRetrieval rx embeddings documents [] maxResults = Inr out
            \<and> (documents \<noteq> [] \<and> 0 < maxResults \<longrightarrow> out \<noteq> []))"
proof -
  let ?all = "map (\<lambda>d. \<lparr>doc = d, relevanceScore = 8 + 2 * length (tags d)\<rparr>) documents"
  have ks: "keywordSearch rx documents [] n = Inr (take n (sortBy byRelevance ?all))" for n
    by (simp add: keywordSearch_def toLowerCase_def scoreDocuments_empty)
  have order: "sorted_wrt (\<lambda>a b. relevanceScore b \<le> relevanceScore a)
                 (take maxResults (sortBy byRelevance ?all))"
    by (simp add: sortBy_byRelevance_descending)
  have len: "length (take maxResults (sortBy byRelevance ?all)) = min maxResults (length documents)"
    by (simp add: min.commute)
  have first: "\<exists>out. keywordSearch rx documents [] maxResults = Inr out
        \<and> out = take maxResults (sort_key (\<lambda>r. - int (relevanceScore r)) ?all)
        \<and> sorted_wrt (\<lambda>a b. relevanceScore b \<le> relevanceScore a) out
        \<and> length out = min maxResults (length documents)"
    using ks [of maxResults] order len by (simp add: sortBy_byRelevance)
  let ?K = "take (maxResults * 2) (sortBy byRelevance ?all)"
  let ?M = "fuse documents ?K (vectorSearch embeddings [] (map ident documents) (maxResults * 2))"
  let ?out = "take maxResults (sortBy byCombinedScore (map snd ?M))"
  have hr: "hybridRetrieval rx embeddings documents [] maxResults = Inr ?out"
    by (simp add: hybridRetrieval_def ks Let_def)
  have "?out \<noteq> []" if "documents \<noteq> []" "0 < maxResults"
  proof -
    have "0 < length ?K" using that by simp
    then have "?K \<noteq> []" unfolding length_greater_0_conv .
    then have "?M \<noteq> []" by (rule fuse_not_Nil)
    then have "0 < length ?M" unfolding length_greater_0_conv .
    then have "0 < length ?out" using that(2) by simp
    then show ?thesis unfolding length_greater_0_conv .
  qed
  with hr have second: "\<exists>out. hybridRetrieval rx embeddings documents [] maxResults = Inr out
            \<and> (documents \<noteq> [] \<and> 0 < maxResults \<longrightarrow> out \<noteq> [])" by blast
  from first second show ?thesis by (rule conjI)
qed

text \<open>
  C1, as stated (score 0 for every document and an empty result), fails on the worked
  corpus: Doc A has the score 10, and both documents are returned.
\<close>

theorem empty_query_counterexample:
  "scoreDocument regExpMatchCount [] docA \<noteq> Inr 0
   \<and> keywordSearch regExpMatchCount [docA, docB] [] 5 \<noteq> Inr []"
  by (simp add: strings corpus regexps keyword)

text \<open>
  On the list [Doc C, Doc A], Doc C without tags has the score 8 and Doc A with one tag
  the score 10: Doc A comes first.
\<close>

theorem empty_query_matches_every_document_witness:
  "keywordSearch regExpMatchCount [docC, docA] [] 5
     = Inr [\<lparr>doc = docA, relevanceScore = 10\<rparr>, \<lparr>doc = docC, relevanceScore = 8\<rparr>]
   \<and> hybridRetrieval regExpMatchCount Map.empty [docC, docA] [] 5 \<noteq> Inr []"
  using empty_query_matches_every_document [of regExpMatchCount "[docC, docA]" 5 Map.empty]
  by (auto simp: corpus)

subsection \<open>Words as regular expressions\<close>

text \<open>
  C3. The query \<^verbatim>\<open>c++\<close> is a word of length 3 and no regular expression (its second
  \<^verbatim>\<open>+\<close> has nothing to repeat): with a document to score, \<^verbatim>\<open>new RegExp(word, "g")\<close>
  throws, and keywordSearch and hybridRetrieval end with the \<^verbatim>\<open>SyntaxError\<close>.
\<close>

theorem keywordSearch_raises:
  "keywordSearch regExpMatchCount [docA, docB] ''c++'' 5 = Inl SyntaxError
   \<and> hybridRetrieval regExpMatchCount Map.empty [docA, docB] ''c++'' 5 = Inl SyntaxError"
  by (simp add: strings corpus regexps keyword hybridRetrieval_def)

text \<open>
  C2. The word \<^verbatim>\<open>b.ta\<close> stands nowhere in Doc A or Doc B, so the rule as the
  specification words it scores 0; as a regular expression it matches \<^verbatim>\<open>beta\<close>, and
  keywordSearch scores Doc B 3 and Doc A 1 and returns both.
\<close>

theorem keywordSearch_pattern_match:
  "scoreDocument regExpMatchCount ''b.ta'' docB = Inr 3 \<and> claimedScore ''b.ta'' docB = 0
   \<and> keywordSearch regExpMatchCount [docA, docB] ''b.ta'' 5 = Inr [\<lparr>doc = docB, relevanceScore = 3\<rparr>, \<lparr>doc = docA, relevanceScore = 1\<rparr>]"
  by (simp add: strings corpus regexps keyword claimedScore_def literalOccurrences_def)

text \<open>The worked scenario of the specification: Doc A scores 14, Doc B is left out.\<close>

lemma worked_scenario:
  "scoreDocument regExpMatchCount ''alpha'' docA = Inr 14
   \<and> scoreDocument regExpMatchCount ''alpha'' docB = Inr 0
   \<and> keywordSearch regExpMatchCount [docA, docB] ''alpha'' 5 = Inr [\<lparr>doc = docA, relevanceScore = 14\<rparr>]"
  by (simp add: strings corpus regexps keyword)

text \<open>
  For a query whose words longer than 2 have no syntax character, the engine counts the
  literal occurrences and keywordSearch scores by the rule as the specification words it.
\<close>

lemma parsePattern_plain:
  "\<forall>c\<in>set w. \<not> isSyntaxCharacter c \<Longrightarrow> parsePattern p w = Inr (map Lit w)"
  by (induction w arbitrary: p) (auto simp: isSyntaxCharacter_def)

lemma regExpMatchCount_plain:
  "\<forall>c\<in>set w. \<not> isSyntaxCharacter c \<Longrightarrow> regExpMatchCount w t = Inr (literalOccurrences w t)"
  by (simp add: regExpMatchCount_def parsePattern_plain literalOccurrences_def)

lemma wordMatches_plain:
  assumes "\<forall>w\<in>set ws. 2 < length w \<longrightarrow> (\<forall>c\<in>set w. \<not> isSyntaxCharacter c)"
  shows "wordMatches regExpMatchCount ws t c score
           = Inr (score + (\<Sum>w\<leftarrow>filter (\<lambda>w. 2 < length w) ws.
                             2 * literalOccurrences w t + literalOccurrences w c))"
  using assms
proof (induction ws arbitrary: score)
  case Nil
  show ?case by simp
next
  case (Cons w ws)
  then show ?case by (simp add: regExpMatchCount_plain)
qed

lemma tagMatches_count:
  "tagMatches q ts score = score + 2 * length (filter (\<lambda>tag. includesStr (toLowerCase tag) q) ts)"
  by (induction ts arbitrary: score) simp_all

lemma scoreDocument_plain_words:
  assumes "\<forall>w\<in>set (splitWhitespace (toLowerCase query)).
             2 < length w \<longrightarrow> (\<forall>c\<in>set w. \<not> isSyntaxCharacter c)"
  shows "scoreDocument regExpMatchCount (toLowerCase query) d = Inr (claimedScore query d)"
  by (simp add: scoreDocument_def claimedScore_def Let_def tagMatches_count
        wordMatches_plain [OF assms])

text \<open>For such a query neither keywordSearch nor hybridRetrieval raises.\<close>

lemma scoreDocuments_plain_words:
  assumes "\<forall>w\<in>set (splitWhitespace (toLowerCase query)).
             2 < length w \<longrightarrow> (\<forall>c\<in>set w. \<not> isSyntaxCharacter c)"
  shows "\<exists>rs. scoreDocuments regExpMatchCount (toLowerCase query) ds = Inr rs"
proof (induction ds)
  case Nil
  show ?case by simp
next
  case (Cons d ds)
  then obtain rs where "scoreDocuments regExpMatchCount (toLowerCase query) ds = Inr rs" by blast
  then show ?case by (simp add: scoreDocument_plain_words [OF assms])
qed

lemma keywordSearch_plain_words:
  assumes "\<forall>w\<in>set (splitWhitespace (toLowerCase query)).
             2 < length w \<longrightarrow> (\<forall>c\<in>set w. \<not> isSyntaxCharacter c)"
  shows "\<exists>K. keywordSearch regExpMatchCount ds query n = Inr K"
proof -
  from scoreDocuments_plain_words [OF assms, of ds]
  obtain rs where "scoreDocuments regExpMatchCount (toLowerCase query) ds = Inr rs" by blast
  then show ?thesis by (simp add: keywordSearch_def Let_def)
qed

lemma hybridRetrieval_plain_words:
  assumes "\<forall>w\<in>set (splitWhitespace (toLowerCase query)).
             2 < length w \<longrightarrow> (\<forall>c\<in>set w. \<not> isSyntaxCharacter c)"
  shows "\<exists>out. hybridRetrieval regExpMatchCount emb ds query n = Inr out"
proof -
  from keywordSearch_plain_words [OF assms, of ds "n * 2"]
  obtain K where "keywordSearch regExpMatchCount ds query (n * 2) = Inr K" by blast
  then show ?thesis by (simp add: hybridRetrieval_def Let_def)
qed

section \<open>Properties of fusion\<close>

subsection \<open>The map of combined results\<close>

lemma map_fst_mapSet:
  "map fst (mapSet k v m) = (if k \<in> set (map fst m) then map fst m else map fst m @ [k])"
  by (induction m) (auto simp del: set_map)

lemma distinct_mapSet: "distinct (map fst m) \<Longrightarrow> distinct (map fst (mapSet k v m))"
  by (simp add: map_fst_mapSet del: set_map)


lemma in_mapSet:
  "distinct (map fst m) \<Longrightarrow>
   (k', r) \<in> set (mapSet k v m) \<longleftrightarrow> (k' = k \<and> r = v) \<or> (k' \<noteq> k \<and> (k', r) \<in> set m)"
proof (induction m)
  case Nil
  show ?case by auto
next
  case (Cons p m)
  obtain a b where p: "p = (a, b)" by (cases p)
  from Cons.prems p have a: "a \<notin> fst ` set m" and d: "distinct (map fst m)" by auto
  show ?case
  proof (cases "a = k")
    case True
    have "(k, r) \<notin> set m" for r using a True by force
    with True p show ?thesis by auto
  next
    case False
    with p Cons.IH [OF d] show ?thesis by auto
  qed
qed
lemma find_SomeD': "find P xs = Some x \<Longrightarrow> P x \<and> x \<in> set xs"
  by (induction xs) (auto split: if_splits)

lemma zero_blend: "jsadd (Num 0) s = s"
  by (cases s) simp_all


lemma inKeyword_snoc: "inKeyword (K @ [x]) k = (inKeyword K k \<or> k = ident (doc x))"
  by (auto simp: inKeyword_def)

lemma inKeyword_Nil [simp]: "\<not> inKeyword [] k"
  by (simp add: inKeyword_def)

lemma inVector_snoc:
  "inVector ds (P @ [h]) k = (inVector ds P k \<or> (k = docId h \<and> k \<in> set (map ident ds)))"
  by (auto simp: inVector_def)

lemma inVector_Nil [simp]: "\<not> inVector ds [] k"
  by (simp add: inVector_def)

lemma keywordScoreOf_snoc_other:
  "keywordScoreOf K k s \<Longrightarrow> k \<noteq> ident (doc x) \<Longrightarrow> keywordScoreOf (K @ [x]) k s"
  by (auto simp: keywordScoreOf_def inKeyword_snoc)

lemma keywordScoreOf_snoc_same:
  "keywordScoreOf (K @ [x]) (ident (doc x)) (Num (real (relevanceScore x)))"
  by (auto simp: keywordScoreOf_def inKeyword_snoc)

lemma vectorScoreOf_snoc_other:
  "vectorScoreOf ds P k s \<Longrightarrow> \<not> (k = docId h \<and> k \<in> set (map ident ds)) \<Longrightarrow>
   vectorScoreOf ds (P @ [h]) k s"
  by (auto simp: vectorScoreOf_def inVector_snoc)

lemma vectorScoreOf_snoc_same:
  "docId h \<in> set (map ident ds) \<Longrightarrow> vectorScoreOf ds (P @ [h]) (docId h) (similarity h)"
  by (auto simp: vectorScoreOf_def inVector_snoc)

lemma vectorScoreOf_Nil [simp]: "vectorScoreOf ds [] k s = (s = Num 0)"
  by (simp add: vectorScoreOf_def)

lemma keywordScoreOf_absent: "\<not> inKeyword K k \<Longrightarrow> keywordScoreOf K k s = (s = Num 0)"
  by (simp add: keywordScoreOf_def)

lemma entryInvariant_more_keywords:
  assumes "entryInvariant ds K [] e" "fst e \<noteq> ident (doc x)"
  shows "entryInvariant ds (K @ [x]) [] e"
  using assms unfolding entryInvariant_def Let_def
  by (auto simp: inKeyword_snoc keywordScoreOf_snoc_other)

lemma keyword_phase:
  "distinct (map fst (foldl addKeywordResult [] K))
   \<and> set (map fst (foldl addKeywordResult [] K)) = set (map (\<lambda>x. ident (doc x)) K)
   \<and> (\<forall>e\<in>set (foldl addKeywordResult [] K). entryInvariant ds K [] e)"
proof (induction K rule: rev_induct)
  case Nil
  show ?case by simp
next
  case (snoc x K)
  let ?m = "foldl addKeywordResult [] K"
  let ?new = "\<lparr>source = doc x, relevance = Some (relevanceScore x),
        keywordScore = Num (real (relevanceScore x)), vectorScore = Num 0,
        combinedScore = Num (real (relevanceScore x))\<rparr>"
  have step: "foldl addKeywordResult [] (K @ [x]) = mapSet (ident (doc x)) ?new ?m"
    by (simp add: addKeywordResult_def)
  from snoc have d: "distinct (map fst ?m)"
    and keys: "set (map fst ?m) = set (map (\<lambda>x. ident (doc x)) K)"
    and inv: "\<forall>e\<in>set ?m. entryInvariant ds K [] e" by auto
  have new: "entryInvariant ds (K @ [x]) [] (ident (doc x), ?new)"
    unfolding entryInvariant_def Let_def
    by (simp add: keywordScoreOf_snoc_same inKeyword_snoc)
  have all: "entryInvariant ds (K @ [x]) [] e" if "e \<in> set (mapSet (ident (doc x)) ?new ?m)" for e
  proof -
    obtain k r where e: "e = (k, r)" by (cases e)
    from that e consider "e = (ident (doc x), ?new)" | "k \<noteq> ident (doc x)" "e \<in> set ?m"
      using in_mapSet [OF d, of k r "ident (doc x)" ?new] by auto
    then show ?thesis
    proof cases
      case 1 with new show ?thesis by simp
    next
      case 2 with inv e entryInvariant_more_keywords [of ds K e x] show ?thesis by auto
    qed
  qed
  have k': "set (map fst (mapSet (ident (doc x)) ?new ?m)) = set (map (\<lambda>x. ident (doc x)) (K @ [x]))"
    using keys by (auto simp: map_fst_mapSet simp del: set_map)
  show ?case
    unfolding step using d all k' by (simp add: distinct_mapSet del: set_map)
qed

lemma entryInvariant_more_hits:
  assumes "entryInvariant ds K P e" "\<not> (fst e = docId h \<and> fst e \<in> set (map ident ds))"
  shows "entryInvariant ds K (P @ [h]) e"
proof -
  have iv: "inVector ds (P @ [h]) (fst e) = inVector ds P (fst e)"
    using assms(2) unfolding inVector_snoc by blast
  have vs: "vectorScoreOf ds (P @ [h]) (fst e) s" if "vectorScoreOf ds P (fst e) s" for s
    using that assms(2) by (rule vectorScoreOf_snoc_other)
  show ?thesis
    using assms(1) unfolding entryInvariant_def Let_def iv by (simp add: vs)
qed

lemma addVectorResult_step:
  assumes d: "distinct (map fst m)"
      and keys: "set (map (\<lambda>x. ident (doc x)) K) \<subseteq> set (map fst m)"
      and inv: "\<forall>e\<in>set m. entryInvariant ds K P e"
  shows "distinct (map fst (addVectorResult ds m h))
         \<and> set (map (\<lambda>x. ident (doc x)) K) \<subseteq> set (map fst (addVectorResult ds m h))
         \<and> (\<forall>e\<in>set (addVectorResult ds m h). entryInvariant ds K (P @ [h]) e)"
proof (cases "find (\<lambda>d. ident d = docId h) ds")
  case None
  then have "docId h \<notin> set (map ident ds)" by (auto simp: find_None_iff)
  then have "entryInvariant ds K (P @ [h]) e" if "e \<in> set m" for e
    using that inv entryInvariant_more_hits [of ds K P e h] by metis
  with None d keys show ?thesis by (simp add: addVectorResult_def del: set_map)
next
  case (Some dd)
  then have dd: "ident dd = docId h" "dd \<in> set ds"
    using find_SomeD' [of "\<lambda>d. ident d = docId h" ds dd] by auto
  then have live: "docId h \<in> set (map ident ds)" by force
  have keys': "set (map (\<lambda>x. ident (doc x)) K) \<subseteq> set (map fst (mapSet (ident dd) v m))" for v
    using keys by (auto simp: map_fst_mapSet simp del: set_map)
  show ?thesis
  proof (cases "map_of m (ident dd)")
    case None
    let ?new = "\<lparr>source = dd, relevance = None, keywordScore = Num 0,
                  vectorScore = similarity h,
                  combinedScore = jsmul (similarity h) (Num (4/10))\<rparr>"
    have m': "addVectorResult ds m h = mapSet (ident dd) ?new m"
      using Some None by (simp add: addVectorResult_def)
    from None have "ident dd \<notin> set (map fst m)" by (simp add: map_of_eq_None_iff)
    with keys have notK: "\<not> inKeyword K (docId h)" unfolding inKeyword_def dd(1) by blast
    have new: "entryInvariant ds K (P @ [h]) (ident dd, ?new)"
      unfolding entryInvariant_def Let_def
      using dd notK live
      by (simp add: inVector_snoc vectorScoreOf_snoc_same keywordScoreOf_absent del: set_map)
    have all: "entryInvariant ds K (P @ [h]) e" if "e \<in> set (mapSet (ident dd) ?new m)" for e
    proof -
      obtain k r where e: "e = (k, r)" by (cases e)
      from that e consider "e = (ident dd, ?new)" | "k \<noteq> ident dd" "e \<in> set m"
        using in_mapSet [OF d, of k r "ident dd" ?new] by auto
      then show ?thesis
      proof cases
        case 1 with new show ?thesis by simp
      next
        case 2 with inv e dd(1) entryInvariant_more_hits [of ds K P e h] show ?thesis by auto
      qed
    qed
    show ?thesis unfolding m' using d keys' all by (simp add: distinct_mapSet del: set_map)
  next
    case (Some existing)
    let ?new = "existing\<lparr>vectorScore := similarity h,
                    combinedScore :=
                      jsadd (jsmul (keywordScore existing) (Num (6/10)))
                            (jsmul (similarity h) (Num (4/10)))\<rparr>"
    have m': "addVectorResult ds m h = mapSet (ident dd) ?new m"
      using \<open>find (\<lambda>d. ident d = docId h) ds = Some dd\<close> Some by (simp add: addVectorResult_def)
    from Some have "(ident dd, existing) \<in> set m" by (rule map_of_SomeD)
    with inv have ex: "entryInvariant ds K P (docId h, existing)" unfolding dd(1) by blast
    have new: "entryInvariant ds K (P @ [h]) (ident dd, ?new)"
    proof (cases "inKeyword K (docId h)")
      case True
      with ex dd live show ?thesis unfolding entryInvariant_def Let_def
        by (simp add: inVector_snoc vectorScoreOf_snoc_same del: set_map)
    next
      case False
      with ex have "keywordScore existing = Num 0"
        unfolding entryInvariant_def Let_def by (simp add: keywordScoreOf_absent)
      with False ex dd live show ?thesis unfolding entryInvariant_def Let_def
        by (simp add: inVector_snoc vectorScoreOf_snoc_same zero_blend del: set_map)
    qed
    have all: "entryInvariant ds K (P @ [h]) e" if "e \<in> set (mapSet (ident dd) ?new m)" for e
    proof -
      obtain k r where e: "e = (k, r)" by (cases e)
      from that e consider "e = (ident dd, ?new)" | "k \<noteq> ident dd" "e \<in> set m"
        using in_mapSet [OF d, of k r "ident dd" ?new] by auto
      then show ?thesis
      proof cases
        case 1 with new show ?thesis by simp
      next
        case 2 with inv e dd(1) entryInvariant_more_hits [of ds K P e h] show ?thesis by auto
      qed
    qed
    show ?thesis unfolding m' using d keys' all by (simp add: distinct_mapSet del: set_map)
  qed
qed

lemma fuse_invariant:
  "distinct (map fst (fuse ds K P))
   \<and> set (map (\<lambda>x. ident (doc x)) K) \<subseteq> set (map fst (fuse ds K P))
   \<and> (\<forall>e\<in>set (fuse ds K P). entryInvariant ds K P e)"
proof (induction P rule: rev_induct)
  case Nil
  show ?case using keyword_phase [of K ds] by (simp add: fuse_def del: set_map)
next
  case (snoc h P)
  have "fuse ds K (P @ [h]) = addVectorResult ds (fuse ds K P) h" by (simp add: fuse_def)
  with snoc addVectorResult_step [of "fuse ds K P" K ds P h] show ?case by simp
qed

section \<open>Properties of hybridRetrieval\<close>

subsection \<open>A run on the example knowledge base\<close>

lemmas vectors = vectorize_def vectorSearch_def cosineSimilarity_def keys_def weightOf_def
  sumProducts_def bySimilarity_def

lemma example_keywordSearch:
  "keywordSearch regExpMatchCount exampleDocuments ''delta'' 10
     = Inr [\<lparr>doc = docD, relevanceScore = 14\<rparr>, \<lparr>doc = docB, relevanceScore = 4\<rparr>]"
  by (simp add: strings corpus regexps keyword)

lemma example_vectorSearch:
  "vectorSearch exampleEmbeddings ''delta'' (map ident exampleDocuments) 10
     = [\<lparr>docId = ''docD'', similarity = Num 1\<rparr>, \<lparr>docId = ''docA'', similarity = Num 0\<rparr>]"
  by (simp add: strings corpus vectors sortBy_def)

lemma example_hybridRetrieval:
  "hybridRetrieval regExpMatchCount exampleEmbeddings exampleDocuments ''delta'' 5
     = Inr [\<lparr>source = docD, relevance = Some 14, keywordScore = Num 14, vectorScore = Num 1,
              combinedScore = Num (44/5)\<rparr>,
            \<lparr>source = docB, relevance = Some 4, keywordScore = Num 4, vectorScore = Num 0,
              combinedScore = Num 4\<rparr>,
            \<lparr>source = docA, relevance = None, keywordScore = Num 0, vectorScore = Num 0,
              combinedScore = Num 0\<rparr>]"
  unfolding hybridRetrieval_def
  apply (simp add: example_keywordSearch example_vectorSearch Let_def)
  apply (simp add: fuse_def addKeywordResult_def addVectorResult_def byCombinedScore_def sortBy_def corpus)
  done

subsection \<open>The results of hybridRetrieval are entries of the map\<close>

lemma scoreDocuments_docs:
  "scoreDocuments rx q ds = Inr rs \<Longrightarrow> set (map doc rs) \<subseteq> set ds"
proof (induction ds arbitrary: rs)
  case Nil
  then show ?case by simp
next
  case (Cons d ds)
  then show ?case by (fastforce split: sum.splits if_splits)
qed

lemma keywordSearch_docs:
  assumes "keywordSearch rx ds query n = Inr K"
  shows "set (map doc K) \<subseteq> set ds"
proof -
  from assms obtain rs where rs: "scoreDocuments rx (toLowerCase query) ds = Inr rs"
    and K: "K = take n (sortBy byRelevance rs)"
    by (auto simp: keywordSearch_def Let_def split: sum.splits)
  have "set K \<subseteq> set rs" unfolding K using set_take_subset [of n "sortBy byRelevance rs"] by simp
  with scoreDocuments_docs [OF rs] show ?thesis by auto
qed

lemma similaritiesOf_ids: "set (map docId (similaritiesOf emb qv ids)) \<subseteq> set ids"
  by (induction ids) (auto split: option.splits)

lemma vectorSearch_ids: "set (map docId (vectorSearch emb q ids n)) \<subseteq> set ids"
proof -
  have "set (vectorSearch emb q ids n) \<subseteq> set (similaritiesOf emb (vectorize q) ids)"
    unfolding vectorSearch_def Let_def
    using set_take_subset [of n "sortBy bySimilarity (similaritiesOf emb (vectorize q) ids)"] by simp
  with similaritiesOf_ids [of emb "vectorize q" ids] show ?thesis by auto
qed

lemma hybridRetrieval_Inr:
  assumes "hybridRetrieval rx emb ds query n = Inr out"
  obtains K where "keywordSearch rx ds query (n * 2) = Inr K"
    and "out = take n (sortBy byCombinedScore
                 (map snd (fuse ds K (vectorSearch emb query (map ident ds) (n * 2)))))"
  using assms by (auto simp: hybridRetrieval_def Let_def split: sum.splits)

lemma hybridRetrieval_entries:
  assumes "hybridRetrieval rx emb ds query n = Inr out" "r \<in> set out"
  obtains K where "keywordSearch rx ds query (n * 2) = Inr K"
    and "(ident (source r), r) \<in> set (fuse ds K (vectorSearch emb query (map ident ds) (n * 2)))"
    and "entryInvariant ds K (vectorSearch emb query (map ident ds) (n * 2)) (ident (source r), r)"
proof -
  let ?V = "vectorSearch emb query (map ident ds) (n * 2)"
  from assms(1) obtain K where K: "keywordSearch rx ds query (n * 2) = Inr K"
    and out: "out = take n (sortBy byCombinedScore (map snd (fuse ds K ?V)))"
    by (rule hybridRetrieval_Inr)
  have "set out \<subseteq> set (map snd (fuse ds K ?V))"
    unfolding out using set_take_subset [of n "sortBy byCombinedScore (map snd (fuse ds K ?V))"]
    by simp
  with assms(2) obtain k where kr: "(k, r) \<in> set (fuse ds K ?V)" by auto
  with fuse_invariant [of ds K ?V] have inv: "entryInvariant ds K ?V (k, r)" by blast
  then have "ident (source r) = k" by (simp add: entryInvariant_def Let_def)
  with K kr inv that show ?thesis by blast
qed

text \<open>
  C5. No document id appears twice in a list that hybridRetrieval returns: the entries
  are the values of a map keyed by document id, each one carrying the id it is keyed by,
  and sorting and cutting keep them apart.
\<close>

theorem hybridRetrieval_distinct_ids:
  assumes "hybridRetrieval rx embeddings documents query maxResults = Inr out"
  shows "distinct (map (\<lambda>r. ident (source r)) out)"
proof -
  let ?V = "vectorSearch embeddings query (map ident documents) (maxResults * 2)"
  from assms obtain K where
    out: "out = take maxResults (sortBy byCombinedScore (map snd (fuse documents K ?V)))"
    by (rule hybridRetrieval_Inr)
  let ?M = "fuse documents K ?V"
  have "ident (source (snd e)) = fst e" if "e \<in> set ?M" for e
    using that fuse_invariant [of documents K ?V] by (auto simp: entryInvariant_def Let_def)
  then have eq: "map (\<lambda>r. ident (source r)) (map snd ?M) = map fst ?M"
    unfolding map_map by (intro map_cong [OF refl]) simp
  have "distinct (map fst ?M)" using fuse_invariant [of documents K ?V] by blast
  then have "distinct (map (\<lambda>r. ident (source r)) (map snd ?M))" by (simp only: eq)
  then have "distinct (map (\<lambda>r. ident (source r)) (sortBy byCombinedScore (map snd ?M)))"
    by (simp only: distinct_map_sortBy)
  then show ?thesis unfolding out take_map [symmetric] by (rule distinct_take)
qed

theorem hybridRetrieval_distinct_ids_witness:
  "distinct (map (\<lambda>r. ident (source r))
     [\<lparr>source = docD, relevance = Some 14, keywordScore = Num 14, vectorScore = Num 1,
              combinedScore = Num (44/5)\<rparr>,
            \<lparr>source = docB, relevance = Some 4, keywordScore = Num 4, vectorScore = Num 0,
              combinedScore = Num 4\<rparr>,
            \<lparr>source = docA, relevance = None, keywordScore = Num 0, vectorScore = Num 0,
              combinedScore = Num 0\<rparr>])"
  by (rule hybridRetrieval_distinct_ids [OF example_hybridRetrieval])

text \<open>
  C10. Every result that hybridRetrieval returns carries a document of the document
  list; and in the fusion a vector hit whose id is the id of no document leaves the map
  as it is, so it never shows in the output.
\<close>

theorem hybridRetrieval_live_documents:
  "(hybridRetrieval rx embeddings documents query maxResults = Inr out
      \<longrightarrow> (\<forall>r\<in>set out. source r \<in> set documents))
   \<and> (docId h \<notin> set (map ident documents)
      \<longrightarrow> addVectorResult documents combinedResults h = combinedResults)"
proof (intro conjI impI ballI)
  fix r
  assume hr: "hybridRetrieval rx embeddings documents query maxResults = Inr out" and r: "r \<in> set out"
  let ?V = "vectorSearch embeddings query (map ident documents) (maxResults * 2)"
  from hr r obtain K where K: "keywordSearch rx documents query (maxResults * 2) = Inr K"
    and inv: "entryInvariant documents K ?V (ident (source r), r)"
    by (rule hybridRetrieval_entries)
  from inv have "source r \<in> set documents \<or> source r \<in> set (map doc K)"
    by (simp add: entryInvariant_def Let_def)
  with keywordSearch_docs [OF K] show "source r \<in> set documents" by blast
next
  assume "docId h \<notin> set (map ident documents)"
  then have "find (\<lambda>d. ident d = docId h) documents = None" by (force simp: find_None_iff)
  then show "addVectorResult documents combinedResults h = combinedResults"
    by (simp add: addVectorResult_def)
qed


theorem hybridRetrieval_live_documents_witness:
  "source \<lparr>source = docD, relevance = Some 14, keywordScore = Num 14, vectorScore = Num 1,
            combinedScore = Num (44/5)\<rparr> \<in> set exampleDocuments
   \<and> source \<lparr>source = docA, relevance = None, keywordScore = Num 0, vectorScore = Num 0,
            combinedScore = Num 0\<rparr> \<in> set exampleDocuments
   \<and> addVectorResult exampleDocuments [] \<lparr>docId = ''docZ'', similarity = Num 1\<rparr> = []"
proof -
  have ghost: "docId \<lparr>docId = ''docZ'', similarity = Num 1\<rparr> \<notin> set (map ident exampleDocuments)"
    by (simp add: corpus)
  from hybridRetrieval_live_documents
         [of regExpMatchCount exampleEmbeddings exampleDocuments "''delta''" 5
             "[\<lparr>source = docD, relevance = Some 14, keywordScore = Num 14, vectorScore = Num 1,
                combinedScore = Num (44/5)\<rparr>,
               \<lparr>source = docB, relevance = Some 4, keywordScore = Num 4, vectorScore = Num 0,
                combinedScore = Num 4\<rparr>,
               \<lparr>source = docA, relevance = None, keywordScore = Num 0, vectorScore = Num 0,
                combinedScore = Num 0\<rparr>]"
             "\<lparr>docId = ''docZ'', similarity = Num 1\<rparr>" "[]"]
       example_hybridRetrieval ghost
  show ?thesis by simp
qed

text \<open>
  C4. Let \<open>K\<close> be the keyword results and \<open>V\<close> the vector hits of a call of
  hybridRetrieval, and \<open>r\<close> one of the results it returns, for the document id \<open>k\<close>.
  When \<open>k\<close> occurs in \<open>K\<close>, the keyword score of \<open>r\<close> is the relevance score of a result
  of \<open>K\<close> for \<open>k\<close>; when it occurs in \<open>V\<close>, the vector score of \<open>r\<close> is the similarity of
  a hit of \<open>V\<close> for \<open>k\<close>. The combined score is keywordScore * 0.6 + vectorScore * 0.4
  when \<open>k\<close> occurs in both, the keyword score itself, unscaled, when it occurs in \<open>K\<close>
  only, and vectorScore * 0.4 when it occurs in \<open>V\<close> only.
\<close>

theorem hybridRetrieval_combinedScore:
  assumes K: "keywordSearch rx documents query (maxResults * 2) = Inr K"
      and out: "hybridRetrieval rx embeddings documents query maxResults = Inr out"
      and r: "r \<in> set out"
  defines "V \<equiv> vectorSearch embeddings query (map ident documents) (maxResults * 2)"
  defines "k \<equiv> ident (source r)"
  defines "inK \<equiv> k \<in> set (map (\<lambda>x. ident (doc x)) K)"
  defines "inV \<equiv> k \<in> set (map docId V)"
  shows "(inK \<longrightarrow> (\<exists>x\<in>set K. ident (doc x) = k \<and> keywordScore r = Num (real (relevanceScore x))))
       \<and> (inV \<longrightarrow> (\<exists>h\<in>set V. docId h = k \<and> vectorScore r = similarity h))
       \<and> (inK \<and> inV \<longrightarrow>
            combinedScore r = jsadd (jsmul (keywordScore r) (Num (6/10)))
                                    (jsmul (vectorScore r) (Num (4/10))))
       \<and> (inK \<and> \<not> inV \<longrightarrow> combinedScore r = keywordScore r)
       \<and> (\<not> inK \<and> inV \<longrightarrow> combinedScore r = jsmul (vectorScore r) (Num (4/10)))"
proof -
  from out r obtain K' where K': "keywordSearch rx documents query (maxResults * 2) = Inr K'"
    and inv': "entryInvariant documents K' V (k, r)"
    unfolding V_def k_def by (rule hybridRetrieval_entries)
  from K K' have "K' = K" by simp
  with inv' have inv: "entryInvariant documents K V (k, r)" by simp
  from inv have "source r \<in> set documents \<or> source r \<in> set (map doc K)"
    by (simp add: entryInvariant_def Let_def)
  with keywordSearch_docs [OF K] have "source r \<in> set documents" by blast
  then have live: "k \<in> set (map ident documents)" unfolding k_def by simp
  have iK: "inKeyword K k = inK" by (simp add: inKeyword_def inK_def)
  have iV: "inVector documents V k = inV" using live by (simp add: inVector_def inV_def)
  from inv have ks: "keywordScoreOf K k (keywordScore r)"
    and vs: "vectorScoreOf documents V k (vectorScore r)"
    and cs: "combinedScore r =
           (if inV then
              (if inK
               then jsadd (jsmul (keywordScore r) (Num (6/10))) (jsmul (vectorScore r) (Num (4/10)))
               else jsmul (vectorScore r) (Num (4/10)))
            else keywordScore r)"
    unfolding entryInvariant_def Let_def by (simp_all add: iK iV)
  from ks have 1: "inK \<longrightarrow> (\<exists>x\<in>set K. ident (doc x) = k \<and> keywordScore r = Num (real (relevanceScore x)))"
    unfolding keywordScoreOf_def iK by auto
  from vs have 2: "inV \<longrightarrow> (\<exists>h\<in>set V. docId h = k \<and> vectorScore r = similarity h)"
    unfolding vectorScoreOf_def iV by auto
  from 1 2 cs show ?thesis by simp
qed

theorem hybridRetrieval_combinedScore_witness:
  "combinedScore \<lparr>source = docD, relevance = Some 14, keywordScore = Num 14, vectorScore = Num 1,
                   combinedScore = Num (44/5)\<rparr> = jsadd (jsmul (Num 14) (Num (6/10))) (jsmul (Num 1) (Num (4/10)))
   \<and> combinedScore \<lparr>source = docB, relevance = Some 4, keywordScore = Num 4, vectorScore = Num 0,
                   combinedScore = Num 4\<rparr> = Num 4
   \<and> combinedScore \<lparr>source = docA, relevance = None, keywordScore = Num 0, vectorScore = Num 0,
                   combinedScore = Num 0\<rparr> = jsmul (Num 0) (Num (4/10))"
proof -
  let ?rD = "\<lparr>source = docD, relevance = Some 14, keywordScore = Num 14, vectorScore = Num 1,
                   combinedScore = Num (44/5)\<rparr>"
  let ?rB = "\<lparr>source = docB, relevance = Some 4, keywordScore = Num 4, vectorScore = Num 0,
                   combinedScore = Num 4\<rparr>"
  let ?rA = "\<lparr>source = docA, relevance = None, keywordScore = Num 0, vectorScore = Num 0,
                   combinedScore = Num 0\<rparr>"
  have K: "keywordSearch regExpMatchCount exampleDocuments ''delta'' (5 * 2)
             = Inr [\<lparr>doc = docD, relevanceScore = 14\<rparr>, \<lparr>doc = docB, relevanceScore = 4\<rparr>]"
    using example_keywordSearch by simp
  have V: "vectorSearch exampleEmbeddings ''delta'' (map ident exampleDocuments) (5 * 2)
     = [\<lparr>docId = ''docD'', similarity = Num 1\<rparr>, \<lparr>docId = ''docA'', similarity = Num 0\<rparr>]"
    using example_vectorSearch by simp
  have D: "?rD \<in> set [?rD, ?rB, ?rA]" and B: "?rB \<in> set [?rD, ?rB, ?rA]"
    and A: "?rA \<in> set [?rD, ?rB, ?rA]" by simp_all
  from hybridRetrieval_combinedScore [OF K example_hybridRetrieval D]
       hybridRetrieval_combinedScore [OF K example_hybridRetrieval B]
       hybridRetrieval_combinedScore [OF K example_hybridRetrieval A]
  show ?thesis unfolding V by (simp add: docA_def docB_def docD_def)
qed

section \<open>Properties of vectorize and vectorSearch\<close>

subsection \<open>Texts without inherited names\<close>

text \<open>
  Where the tokens of the text include neither \<^verbatim>\<open>constructor\<close> nor \<^verbatim>\<open>__proto__\<close>,
  vectorize is the table of frequencies: its keys are the tokens longer than 2, each with
  its number of occurrences over the number of all tokens, a weight in (0, 1]
  (\<open>vectorize_frequencies\<close>, \<open>vectorize_weights_unit\<close>).
\<close>

lemma map_of_bump:
  assumes "word \<noteq> ''constructor''" "word \<noteq> ''__proto__''"
  shows "map_of (bump word wc) w =
           (if w = word
            then Some (case map_of wc word of
                         None \<Rightarrow> Count 1 | Some (Count n) \<Rightarrow> Count (n + 1) | Some Text \<Rightarrow> Text)
            else map_of wc w)"
  using assms by (induction wc) (auto split: tally.splits)

lemma count_list_filter:
  "count_list (filter P xs) x = (if P x then count_list xs x else 0)"
  by (induction xs) auto

lemma map_of_countWords:
  assumes "''constructor'' \<notin> set ws" "''__proto__'' \<notin> set ws"
  shows "map_of (countWords wc ws) w =
           (let n = count_list (filter (\<lambda>w. 2 < length w) ws) w
            in case map_of wc w of
                 None \<Rightarrow> (if n = 0 then None else Some (Count n))
               | Some (Count m) \<Rightarrow> Some (Count (m + n))
               | Some Text \<Rightarrow> Some Text)"
  using assms
proof (induction ws arbitrary: wc)
  case Nil
  show ?case by (simp split: option.splits tally.splits)
next
  case (Cons x xs)
  then have x: "x \<noteq> ''constructor''" "x \<noteq> ''__proto__''"
    and xs: "''constructor'' \<notin> set xs" "''__proto__'' \<notin> set xs" by auto
  show ?case
  proof (cases "2 < length x")
    case False
    with Cons.IH [OF xs, of wc] show ?thesis by (simp add: Let_def)
  next
    case True
    with Cons.IH [OF xs, of "bump x wc"] show ?thesis
      by (simp add: Let_def map_of_bump [OF x] split: option.splits tally.splits)
  qed
qed

lemma map_of_weights:
  "map_of (map (\<lambda>(word, count). (word, weight count n)) wc) w
     = map_option (\<lambda>count. weight count n) (map_of wc w)"
  by (induction wc) auto

lemma vectorize_frequencies:
  assumes "''constructor'' \<notin> set (matchWords [] (toLowerCase text))"
      and "''__proto__'' \<notin> set (matchWords [] (toLowerCase text))"
  shows "map_of (vectorize text) w =
           (let words = matchWords [] (toLowerCase text)
            in if w \<in> set words \<and> 2 < length w
               then Some (Num (real (count_list words w) / real (length words)))
               else None)"
proof -
  let ?words = "matchWords [] (toLowerCase text)"
  let ?n = "count_list (filter (\<lambda>w. 2 < length w) ?words) w"
  have wc: "map_of (countWords [] ?words) w = (if ?n = 0 then None else Some (Count ?n))"
    using map_of_countWords [OF assms, of "[]" w] by (simp add: Let_def)
  have n: "?n = (if 2 < length w then count_list ?words w else 0)"
    by (simp add: count_list_filter)
  show ?thesis
  proof (cases "w \<in> set ?words \<and> 2 < length w")
    case True
    then have "count_list ?words w \<noteq> 0" by (simp add: count_list_0_iff)
    moreover from True have "?words \<noteq> []" by auto
    ultimately show ?thesis using True wc n
      by (simp add: vectorize_def Let_def map_of_weights)
  next
    case False
    then have "?n = 0" using n by (auto simp: count_list_0_iff)
    with False wc show ?thesis by (simp add: vectorize_def Let_def map_of_weights)
  qed
qed

lemma vectorize_weights_unit:
  assumes "''constructor'' \<notin> set (matchWords [] (toLowerCase text))"
      and "''__proto__'' \<notin> set (matchWords [] (toLowerCase text))"
      and "map_of (vectorize text) w = Some x"
  shows "\<exists>a. x = Num a \<and> 0 < a \<and> a \<le> 1"
proof -
  let ?words = "matchWords [] (toLowerCase text)"
  from assms(3) vectorize_frequencies [OF assms(1,2), of w]
  have w: "w \<in> set ?words" and x: "x = Num (real (count_list ?words w) / real (length ?words))"
    by (auto simp: Let_def split: if_splits)
  from w have "0 < count_list ?words w" by (simp add: count_list_0_iff zero_less_iff_neq_zero)
  moreover have "count_list ?words w \<le> length ?words" by (rule count_le_length)
  moreover from w have "0 < length ?words" by auto
  ultimately show ?thesis using x by simp
qed

subsection \<open>Texts with inherited names\<close>

text \<open>
  C8. In a text with the token \<^verbatim>\<open>constructor\<close> the weight of that token is \<open>NaN\<close>, not
  its frequency over the number of tokens, and not in [0,1]; the token \<^verbatim>\<open>__proto__\<close>
  is no key of the vector at all.
\<close>

theorem vectorize_inherited_names:
  "vectorize ''The constructor runs'' = [(''the'', Num (1/3)), (''constructor'', NaN), (''runs'', Num (1/3))]
   \<and> vectorize ''__proto__'' = []"
  by (simp add: vectorize_def strings)

subsection \<open>Similarities that are numbers\<close>

lemma cosineSimilarity_isNumber:
  assumes "\<forall>w\<in>set (keys v1). \<exists>a. weightOf v1 w = Num a \<and> a \<noteq> 0"
      and "\<forall>w\<in>set (keys v2). \<exists>a. weightOf v2 w = Num a \<and> a \<noteq> 0"
  shows "isNumber (cosineSimilarity v1 v2)"
proof (cases "filter (\<lambda>x. x \<in> set (keys v2)) (keys v1) = []")
  case True
  then show ?thesis by (simp add: cosineSimilarity_def)
next
  case False
  let ?common = "filter (\<lambda>x. x \<in> set (keys v2)) (keys v1)"
  let ?f1 = "\<lambda>w. numval (weightOf v1 w)" and ?f2 = "\<lambda>w. numval (weightOf v2 w)"
  from False obtain w where w: "w \<in> set (keys v1)" "w \<in> set (keys v2)"
    by (auto simp: filter_empty_conv)
  have n1: "\<forall>w\<in>set (keys v1). isNumber (weightOf v1 w)" using assms(1) by fastforce
  have n2: "\<forall>w\<in>set (keys v2). isNumber (weightOf v2 w)" using assms(2) by fastforce
  have "?f1 w \<noteq> 0" using assms(1) w(1) by fastforce
  then have p1: "0 < (\<Sum>w\<leftarrow>keys v1. ?f1 w * ?f1 w)" using w(1) by (rule sum_squares_pos [rotated])
  have "?f2 w \<noteq> 0" using assms(2) w(2) by fastforce
  then have p2: "0 < (\<Sum>w\<leftarrow>keys v2. ?f2 w * ?f2 w)" using w(2) by (rule sum_squares_pos [rotated])
  have s1: "sumProducts v1 v1 (keys v1) = Num (\<Sum>w\<leftarrow>keys v1. ?f1 w * ?f1 w)"
    using n1 by (simp add: sumProducts_Num)
  have s2: "sumProducts v2 v2 (keys v2) = Num (\<Sum>w\<leftarrow>keys v2. ?f2 w * ?f2 w)"
    using n2 by (simp add: sumProducts_Num)
  have d: "sumProducts v1 v2 ?common = Num (\<Sum>w\<leftarrow>?common. ?f1 w * ?f2 w)"
    using n1 n2 by (intro sumProducts_Num) auto
  show ?thesis using False p1 p2
    by (simp add: cosineSimilarity_def Let_def s1 s2 d)
qed

subsection \<open>The order of the hits\<close>

lemma length_vectorSearch: "length (vectorSearch emb q ids topK) \<le> topK"
  by (simp add: vectorSearch_def Let_def)

lemma similaritiesOf_skips:
  "similaritiesOf emb qv ids
     = map (\<lambda>i. \<lparr>docId = i, similarity = cosineSimilarity qv (the (emb i))\<rparr>)
           (filter (\<lambda>i. emb i \<noteq> None) ids)"
  by (induction ids) (auto split: option.splits)

lemma filter_insertBy:
  assumes "\<And>y. P x \<Longrightarrow> P y \<Longrightarrow> \<not> positive (cmp x y)"
  shows "filter P (insertBy cmp x ys) = (if P x then x # filter P ys else filter P ys)"
  using assms by (induction ys) auto

lemma sortBy_stable:
  "filter (\<lambda>h. similarity h = s) (sortBy bySimilarity hs) = filter (\<lambda>h. similarity h = s) hs"
proof (induction hs)
  case Nil
  show ?case by simp
next
  case (Cons h hs)
  have "\<not> positive (bySimilarity h y)" if "similarity h = s" "similarity y = s" for y
    using that by (cases s) (simp_all add: bySimilarity_def)
  then have "filter (\<lambda>h. similarity h = s) (insertBy bySimilarity h (sortBy bySimilarity hs))
      = (if similarity h = s then h # filter (\<lambda>h. similarity h = s) (sortBy bySimilarity hs)
         else filter (\<lambda>h. similarity h = s) (sortBy bySimilarity hs))"
    by (intro filter_insertBy) auto
  with Cons show ?case by (simp add: sortBy_Cons)
qed

text \<open>
  On hits whose similarities are numbers the sort is the stable sort of the library, by
  descending similarity.
\<close>

lemma insertBy_insort_key:
  assumes "isNumber (similarity x)" "\<forall>h\<in>set ys. isNumber (similarity h)"
  shows "insertBy bySimilarity x ys = insort_key (\<lambda>h. - numval (similarity h)) x ys"
  using assms
proof (induction ys)
  case Nil
  show ?case by simp
next
  case (Cons y ys)
  obtain a where a: "similarity x = Num a" using Cons.prems(1) by (cases "similarity x") auto
  obtain b where b: "similarity y = Num b" using Cons.prems(2) by (cases "similarity y") auto
  from Cons a b show ?case by (auto simp: bySimilarity_def)
qed

lemma sortBy_sort_key:
  "\<forall>h\<in>set hs. isNumber (similarity h) \<Longrightarrow>
   sortBy bySimilarity hs = sort_key (\<lambda>h. - numval (similarity h)) hs"
  by (induction hs) (simp_all add: sortBy_Cons insertBy_insort_key)

lemma descending_Cons:
  "descending (x # xs) = ((case xs of [] \<Rightarrow> True | y # _ \<Rightarrow> jsge x y) \<and> descending xs)"
  by (cases xs) simp_all

lemma descending_insertBy:
  assumes "isNumber (similarity x)" "\<forall>h\<in>set ys. isNumber (similarity h)"
      and "descending (map similarity ys)"
  shows "descending (map similarity (insertBy bySimilarity x ys))"
  using assms
proof (induction ys)
  case Nil
  then show ?case by simp
next
  case (Cons y ys)
  obtain a where a: "similarity x = Num a" using Cons.prems(1) by (cases "similarity x") auto
  obtain b where b: "similarity y = Num b" using Cons.prems(2) by (cases "similarity y") auto
  show ?case
  proof (cases "positive (bySimilarity x y)")
    case False
    with a b have "b \<le> a" by (simp add: bySimilarity_def)
    with False a b Cons.prems(3) show ?thesis by simp
  next
    case True
    with a b have ab: "a < b" by (simp add: bySimilarity_def)
    from Cons.prems have IH: "descending (map similarity (insertBy bySimilarity x ys))"
      by (intro Cons.IH) (auto simp: descending_Cons)
    have "jsge (similarity y) (similarity (hd (insertBy bySimilarity x ys)))"
    proof (cases ys)
      case Nil
      with a b ab show ?thesis by simp
    next
      case (Cons z zs)
      with Cons.prems b have "jsge (Num b) (similarity z)" by simp
      with Cons a b ab show ?thesis by simp
    qed
    moreover have "insertBy bySimilarity x ys \<noteq> []" by (cases ys) auto
    ultimately show ?thesis using True IH
      by (cases "insertBy bySimilarity x ys") (simp_all add: descending_Cons b)
  qed
qed

lemma sortBy_descending:
  "\<forall>h\<in>set hs. isNumber (similarity h) \<Longrightarrow> descending (map similarity (sortBy bySimilarity hs))"
  by (induction hs) (simp_all add: sortBy_Cons descending_insertBy)

lemma descending_take: "descending xs \<Longrightarrow> descending (take n xs)"
proof (induction xs arbitrary: n rule: descending.induct)
  case 1
  show ?case by simp
next
  case (2 x)
  show ?case by (cases n) simp_all
next
  case (3 x y ys)
  show ?case
  proof (cases n)
    case 0
    then show ?thesis by simp
  next
    case (Suc m)
    from 3 have "descending (take m (y # ys))" by simp
    with 3 Suc show ?thesis by (cases m) simp_all
  qed
qed

lemma vectorSearch_descending:
  assumes "\<forall>h\<in>set (similaritiesOf emb (vectorize q) ids). isNumber (similarity h)"
  shows "descending (map similarity (vectorSearch emb q ids topK))"
  unfolding vectorSearch_def Let_def take_map [symmetric]
  by (intro descending_take sortBy_descending assms)

lemma vectorize_weights_nonzero:
  assumes "''constructor'' \<notin> set (matchWords [] (toLowerCase text))"
      and "''__proto__'' \<notin> set (matchWords [] (toLowerCase text))"
  shows "\<forall>w\<in>set (keys (vectorize text)). \<exists>a. weightOf (vectorize text) w = Num a \<and> a \<noteq> 0"
proof
  fix w assume "w \<in> set (keys (vectorize text))"
  then have "map_of (vectorize text) w \<noteq> None"
    by (simp add: keys_def map_of_eq_None_iff)
  then obtain x where x: "map_of (vectorize text) w = Some x" by auto
  from vectorize_weights_unit [OF assms x] x
  show "\<exists>a. weightOf (vectorize text) w = Num a \<and> a \<noteq> 0"
    by (auto simp: weightOf_def)
qed

lemma similaritiesOf_numbers:
  assumes "\<forall>w\<in>set (keys qv). \<exists>a. weightOf qv w = Num a \<and> a \<noteq> 0"
      and "\<forall>i v. emb i = Some v \<longrightarrow> (\<forall>w\<in>set (keys v). \<exists>a. weightOf v w = Num a \<and> a \<noteq> 0)"
  shows "\<forall>h\<in>set (similaritiesOf emb qv ids). isNumber (similarity h)"
proof (induction ids)
  case Nil
  show ?case by simp
next
  case (Cons i ids)
  show ?case
  proof (cases "emb i")
    case None
    with Cons show ?thesis by simp
  next
    case (Some v)
    with assms have "isNumber (cosineSimilarity qv v)" by (intro cosineSimilarity_isNumber) auto
    with Some Cons show ?thesis by simp
  qed
qed

text \<open>
  The contract of vectorSearch where every similarity is a number: for a query without
  the two inherited names and a table of vectors with weights other than 0 (as vectorize
  makes them), the result has at most \<open>topK\<close> hits, is in descending order of similarity,
  and holds hits of candidate ids only.
\<close>

lemma vectorSearch_contract:
  assumes "''constructor'' \<notin> set (matchWords [] (toLowerCase query))"
      and "''__proto__'' \<notin> set (matchWords [] (toLowerCase query))"
      and "\<forall>i v. emb i = Some v \<longrightarrow> (\<forall>w\<in>set (keys v). \<exists>a. weightOf v w = Num a \<and> a \<noteq> 0)"
  shows "length (vectorSearch emb query ids topK) \<le> topK
       \<and> descending (map similarity (vectorSearch emb query ids topK))
       \<and> set (map docId (vectorSearch emb query ids topK)) \<subseteq> {i \<in> set ids. emb i \<noteq> None}"
proof -
  have "\<forall>h\<in>set (similaritiesOf emb (vectorize query) ids). isNumber (similarity h)"
    using vectorize_weights_nonzero [OF assms(1,2)] assms(3) by (rule similaritiesOf_numbers)
  then have d: "descending (map similarity (vectorSearch emb query ids topK))"
    by (rule vectorSearch_descending)
  have "set (vectorSearch emb query ids topK) \<subseteq> set (similaritiesOf emb (vectorize query) ids)"
    unfolding vectorSearch_def Let_def
    using set_take_subset [of topK "sortBy bySimilarity (similaritiesOf emb (vectorize query) ids)"]
    by simp
  then have "set (map docId (vectorSearch emb query ids topK)) \<subseteq> {i \<in> set ids. emb i \<noteq> None}"
    unfolding similaritiesOf_skips by auto
  with d length_vectorSearch [of emb query ids topK] show ?thesis by simp
qed

text \<open>
  C9. With Doc A and Doc C vectorized and the query \<^verbatim>\<open>constructor\<close>, the similarity
  of Doc C is \<open>NaN\<close> (the query vector and the vector of Doc C both have the weight
  \<open>NaN\<close> for that token): the comparator returns \<open>NaN\<close>, the hits stay in candidate
  order, and the result, 0 before \<open>NaN\<close>, is not in descending order of similarity.
\<close>

theorem vectorSearch_NaN_similarity:
  "vectorSearch (embed (embed Map.empty docA) docC) ''constructor'' [''docA'', ''docC''] 3
     = [\<lparr>docId = ''docA'', similarity = Num 0\<rparr>, \<lparr>docId = ''docC'', similarity = NaN\<rparr>]
   \<and> \<not> descending (map similarity
         (vectorSearch (embed (embed Map.empty docA) docC) ''constructor'' [''docA'', ''docC''] 3))"
  by (simp add: strings corpus vectors sortBy_def)

section \<open>Properties of cosineSimilarity in binary64\<close>

subsection \<open>Rounding to the nearest double\<close>



















subsection \<open>Three roundings\<close>







subsection \<open>NaN, the early return and underflow\<close>

text \<open>
  As in the arithmetic of the reals, \<open>cosineSimilarity64\<close> returns 0 at its early
  return, and a weight \<open>NaN\<close> makes the similarity of a vector with itself \<open>NaN\<close>. A
  weight whose square underflows to 0 gives the squared norm 0 and the quotient
  \<^verbatim>\<open>0 / 0\<close>.
\<close>

lemma cosineSimilarity64_degenerate:
  assumes "vec1 = [] \<or> vec2 = [] \<or> set (keys vec1) \<inter> set (keys vec2) = {}"
  shows "cosineSimilarity64 vec1 vec2 = Finite 0"
proof -
  have "filter (\<lambda>x. x \<in> set (keys vec2)) (keys vec1) = []"
    using assms by (auto simp: keys_def filter_empty_conv)
  then show ?thesis
    by (simp add: cosineSimilarity64_def)
qed







subsection \<open>The vector {alpha: 0.5, beta: 0.5}\<close>




subsection \<open>A vector and itself\<close>




end
